theory Spec2Isabelle
  imports Complex_Main
begin

section \<open>NumPy float64 values\<close>

text \<open>
  The arrays of \<^verbatim>\<open>gs2ew\<close> hold IEEE 754 binary64 numbers. A value is a finite
  real, one of the two infinities, or NaN. The two signed zeros are one value
  (\<open>Fin 0\<close>, read as \<open>+0.0\<close> where the sign of a zero divisor matters).

  Every arithmetic operation takes the rounding \<open>rnd\<close> that is applied to the exact
  real result of an operation on finite operands. \<open>exact\<close> is the idealised
  arithmetic without rounding, \<open>binary64\<close> is round-to-nearest-even on a 53 bit
  significand. The rules for infinities and NaN do not depend on the rounding.

  Three idealisations are made. The exponent range of \<open>binary64\<close> is unbounded, so
  a rounded result neither overflows to an infinity nor loses precision as a
  subnormal. The sign of a zero is not kept. \<^verbatim>\<open>np.log\<close> of a positive number is
  the rounding of the real logarithm. None of the inputs used below comes near
  the ends of the exponent range.
\<close>

datatype fl = Fin real | PInf | NInf | NaN

type_synonym rounding = "real \<Rightarrow> real"

definition exact :: rounding where
  "exact x = x"

definition round_half_even :: "real \<Rightarrow> int" where
  "round_half_even y =
     (let f = \<lfloor>y\<rfloor> in
      if y - of_int f < 1 / 2 then f
      else if 1 / 2 < y - of_int f then f + 1
      else if even f then f else f + 1)"

definition binary64 :: rounding where
  "binary64 x =
     (if x = 0 then 0
      else (let e = \<lfloor>log 2 \<bar>x\<bar>\<rfloor>; u = 2 powr (of_int (e - 52))
            in u * of_int (round_half_even (x / u))))"

fun is_nan :: "fl \<Rightarrow> bool" where
  "is_nan NaN = True"
| "is_nan _ = False"

text \<open>IEEE comparisons: every comparison with NaN is false.\<close>

fun fl_lt :: "fl \<Rightarrow> fl \<Rightarrow> bool" where
  "fl_lt NaN _ = False"
| "fl_lt _ NaN = False"
| "fl_lt (Fin a) (Fin b) = (a < b)"
| "fl_lt (Fin a) PInf = True"
| "fl_lt (Fin a) NInf = False"
| "fl_lt PInf _ = False"
| "fl_lt NInf NInf = False"
| "fl_lt NInf _ = True"

fun fl_le :: "fl \<Rightarrow> fl \<Rightarrow> bool" where
  "fl_le NaN _ = False"
| "fl_le _ NaN = False"
| "fl_le (Fin a) (Fin b) = (a \<le> b)"
| "fl_le (Fin a) PInf = True"
| "fl_le (Fin a) NInf = False"
| "fl_le PInf PInf = True"
| "fl_le PInf _ = False"
| "fl_le NInf _ = True"

fun fl_neg :: "fl \<Rightarrow> fl" where
  "fl_neg (Fin a) = Fin (- a)"
| "fl_neg PInf = NInf"
| "fl_neg NInf = PInf"
| "fl_neg NaN = NaN"

fun fl_add :: "rounding \<Rightarrow> fl \<Rightarrow> fl \<Rightarrow> fl" where
  "fl_add rnd NaN _ = NaN"
| "fl_add rnd _ NaN = NaN"
| "fl_add rnd (Fin a) (Fin b) = Fin (rnd (a + b))"
| "fl_add rnd (Fin a) PInf = PInf"
| "fl_add rnd (Fin a) NInf = NInf"
| "fl_add rnd PInf NInf = NaN"
| "fl_add rnd PInf _ = PInf"
| "fl_add rnd NInf PInf = NaN"
| "fl_add rnd NInf _ = NInf"

definition fl_sub :: "rounding \<Rightarrow> fl \<Rightarrow> fl \<Rightarrow> fl" where
  "fl_sub rnd a b = fl_add rnd a (fl_neg b)"

text \<open>
  Division of NumPy scalars and arrays: a zero divisor gives an infinity (or NaN for
  \<open>0 / 0\<close>) and a warning, never \<^verbatim>\<open>ZeroDivisionError\<close>.
\<close>

fun fl_div :: "rounding \<Rightarrow> fl \<Rightarrow> fl \<Rightarrow> fl" where
  "fl_div rnd NaN _ = NaN"
| "fl_div rnd _ NaN = NaN"
| "fl_div rnd (Fin a) (Fin b) =
     (if b = 0 then (if a = 0 then NaN else if 0 < a then PInf else NInf)
      else Fin (rnd (a / b)))"
| "fl_div rnd (Fin a) _ = Fin 0"
| "fl_div rnd PInf (Fin b) = (if 0 \<le> b then PInf else NInf)"
| "fl_div rnd NInf (Fin b) = (if 0 \<le> b then NInf else PInf)"
| "fl_div rnd _ _ = NaN"

text \<open>
  \<^verbatim>\<open>np.log\<close>: the logarithm of zero is \<open>-inf\<close>, the logarithm of a negative number
  is NaN; both only warn.
\<close>

fun fl_log :: "rounding \<Rightarrow> fl \<Rightarrow> fl" where
  "fl_log rnd (Fin a) =
     (if 0 < a then Fin (rnd (ln a)) else if a = 0 then NInf else NaN)"
| "fl_log rnd PInf = PInf"
| "fl_log rnd NInf = NaN"
| "fl_log rnd NaN = NaN"

subsection \<open>Finite values and properties of a rounding\<close>

fun is_finite :: "fl \<Rightarrow> bool" where
  "is_finite (Fin _) = True"
| "is_finite _ = False"

definition positive :: "fl \<Rightarrow> bool" where
  "positive x = (is_finite x \<and> fl_lt (Fin 0) x)"

text \<open>
  A finite value is a binary64 number when rounding does not change it. The arguments of
  a call are binary64 numbers.
\<close>

fun is_float64 :: "fl \<Rightarrow> bool" where
  "is_float64 (Fin a) = (binary64 a = a)"
| "is_float64 _ = True"

text \<open>
  Properties of a rounding that the claims rely on: no non-zero real is rounded to zero,
  the relative error is bounded, and the integers up to a bound are not changed. The
  rounding \<open>binary64\<close> and exact arithmetic have all three.
\<close>

definition no_flush :: "rounding \<Rightarrow> bool" where
  "no_flush rnd = (\<forall>x. x \<noteq> 0 \<longrightarrow> rnd x \<noteq> 0)"

definition rel_err :: "rounding \<Rightarrow> real \<Rightarrow> bool" where
  "rel_err rnd d = (\<forall>x. \<bar>rnd x - x\<bar> \<le> d * \<bar>x\<bar>)"

definition exact_on_ints :: "rounding \<Rightarrow> int \<Rightarrow> bool" where
  "exact_on_ints rnd b = (\<forall>k. \<bar>k\<bar> \<le> b \<longrightarrow> rnd (of_int k) = of_int k)"

section \<open>Python and NumPy operations used by the detector\<close>

datatype py_error =
    KeyError string
  | IndexError
  | ValueError string
  | OverflowError

text \<open>\<^verbatim>\<open>int(x)\<close> of a float: truncation towards zero; NaN and the infinities raise.\<close>

definition py_int :: "fl \<Rightarrow> py_error + int" where
  "py_int x =
     (case x of
        Fin a \<Rightarrow> Inr (if 0 \<le> a then \<lfloor>a\<rfloor> else \<lceil>a\<rceil>)
      | NaN \<Rightarrow> Inl (ValueError ''cannot convert float NaN to integer'')
      | _ \<Rightarrow> Inl OverflowError)"

text \<open>\<^verbatim>\<open>a[i]\<close> for a non-negative literal index \<open>i\<close>.\<close>

definition getitem :: "'a list \<Rightarrow> nat \<Rightarrow> py_error + 'a" where
  "getitem xs i = (if i < length xs then Inr (xs ! i) else Inl IndexError)"

text \<open>
  The bound of a slice is clipped to the array: a negative bound counts from the end.
  \<^verbatim>\<open>a[i:]\<close> is \<open>slice_from\<close>, \<^verbatim>\<open>a[:j]\<close> is \<open>slice_to\<close>.
\<close>

definition slice_bound :: "nat \<Rightarrow> int \<Rightarrow> nat" where
  "slice_bound n i = (if i < 0 then nat (max 0 (int n + i)) else min (nat i) n)"

definition slice_from :: "'a list \<Rightarrow> int \<Rightarrow> 'a list" where
  "slice_from xs i = drop (slice_bound (length xs) i) xs"

definition slice_to :: "'a list \<Rightarrow> int \<Rightarrow> 'a list" where
  "slice_to xs j = take (slice_bound (length xs) j) xs"

text \<open>
  An elementwise binary operation on two one-dimensional arrays: equal lengths, or one of
  them of length one (broadcast); any other pair of shapes raises.
\<close>

definition broadcast2 ::
  "('a \<Rightarrow> 'a \<Rightarrow> 'a) \<Rightarrow> 'a list \<Rightarrow> 'a list \<Rightarrow> py_error + 'a list" where
  "broadcast2 f xs ys =
     (if length xs = length ys then Inr (map2 f xs ys)
      else if length xs = 1 then Inr (map (f (hd xs)) ys)
      else if length ys = 1 then Inr (map (\<lambda>x. f x (hd ys)) xs)
      else Inl (ValueError ''operands could not be broadcast together''))"

text \<open>\<^verbatim>\<open>a[i:] = rhs\<close>: the right-hand side has the length of the slice or length one.\<close>

definition setitem_from :: "'a list \<Rightarrow> int \<Rightarrow> 'a list \<Rightarrow> py_error + 'a list" where
  "setitem_from base i rhs =
     (let s = slice_bound (length base) i; m = length base - s in
      if length rhs = m then Inr (take s base @ rhs)
      else if length rhs = 1 then Inr (take s base @ replicate m (hd rhs))
      else Inl (ValueError ''could not broadcast input array''))"

text \<open>
  \<^verbatim>\<open>np.argmax\<close> keeps the first maximum: the running maximum is replaced only by an
  element that is not \<open>\<le>\<close> it, and a NaN maximum ends the scan.
\<close>

fun argmax_from :: "fl list \<Rightarrow> nat \<Rightarrow> nat \<Rightarrow> fl \<Rightarrow> nat" where
  "argmax_from [] i b v = b"
| "argmax_from (x # xs) i b v =
     (if is_nan v then b
      else if \<not> fl_le x v then argmax_from xs (Suc i) i x
      else argmax_from xs (Suc i) b v)"

definition np_argmax :: "fl list \<Rightarrow> py_error + nat" where
  "np_argmax xs =
     (case xs of
        [] \<Rightarrow> Inl (ValueError ''attempt to get argmax of an empty sequence'')
      | x # rest \<Rightarrow> Inr (argmax_from rest 1 0 x))"

text \<open>
  \<^verbatim>\<open>np.nanargmax\<close>: NaN entries are replaced by \<open>-inf\<close> before \<^verbatim>\<open>np.argmax\<close>; an
  array of NaN only raises.
\<close>

definition np_nanargmax :: "fl list \<Rightarrow> py_error + nat" where
  "np_nanargmax xs =
     (if xs \<noteq> [] \<and> list_all is_nan xs
      then Inl (ValueError ''All-NaN slice encountered'')
      else np_argmax (map (\<lambda>x. if is_nan x then NInf else x) xs))"

text \<open>\<^verbatim>\<open>a[mask]\<close> for a boolean mask of the length of \<open>a\<close>.\<close>

definition mask_select :: "'a list \<Rightarrow> bool list \<Rightarrow> 'a list" where
  "mask_select xs msk = map fst (filter snd (zip xs msk))"

section \<open>The dataset\<close>

text \<open>
  An \<^verbatim>\<open>xarray.Dataset\<close> read from a GS2 output file: named one-dimensional arrays (the
  coordinates \<open>t\<close>, \<open>theta\<close> and the field energies \<open>phi2\<close>, \<open>apar2\<close>, \<open>bpar2\<close>) and
  named two-dimensional arrays indexed by time and then \<open>theta\<close> (the transfer
  diagnostics). \<^verbatim>\<open>name in ds\<close> is \<open>ds_contains\<close>; \<^verbatim>\<open>ds[name]\<close> raises
  \<^verbatim>\<open>KeyError\<close> for a name the dataset does not hold.
\<close>

record dataset =
  arrays1 :: "string \<rightharpoonup> fl list"
  arrays2 :: "string \<rightharpoonup> fl list list"

definition ds_contains :: "dataset \<Rightarrow> string \<Rightarrow> bool" where
  "ds_contains ds name = (arrays1 ds name \<noteq> None \<or> arrays2 ds name \<noteq> None)"

definition ds_values1 :: "dataset \<Rightarrow> string \<Rightarrow> py_error + fl list" where
  "ds_values1 ds name =
     (case arrays1 ds name of None \<Rightarrow> Inl (KeyError name) | Some xs \<Rightarrow> Inr xs)"

definition ds_values2 :: "dataset \<Rightarrow> string \<Rightarrow> py_error + fl list list" where
  "ds_values2 ds name =
     (case arrays2 ds name of None \<Rightarrow> Inl (KeyError name) | Some xs \<Rightarrow> Inr xs)"

section \<open>The saturation detector\<close>

text \<open>
  \<^verbatim>\<open>idx = int(window / (t[1] - t[0]))\<close>
\<close>

definition window_index :: "rounding \<Rightarrow> fl list \<Rightarrow> fl \<Rightarrow> py_error + int" where
  "window_index rnd t window =
     (case getitem t 1 of
        Inl e \<Rightarrow> Inl e
      | Inr t1 \<Rightarrow>
          (case getitem t 0 of
             Inl e \<Rightarrow> Inl e
           | Inr t0 \<Rightarrow> py_int (fl_div rnd window (fl_sub rnd t1 t0))))"

text \<open>
  \<^verbatim>\<open>growth_rate = np.full(len(t), np.nan)\<close>
  \<^verbatim>\<open>growth_rate[idx:] = (logphi2[idx:] - logphi2[:-idx]) / (t[idx:] - t[:-idx])\<close>
\<close>

definition growth_rate ::
  "rounding \<Rightarrow> fl list \<Rightarrow> fl list \<Rightarrow> int \<Rightarrow> py_error + fl list" where
  "growth_rate rnd t logphi2 idx =
     (case broadcast2 (fl_sub rnd) (slice_from logphi2 idx) (slice_to logphi2 (- idx)) of
        Inl e \<Rightarrow> Inl e
      | Inr num \<Rightarrow>
          (case broadcast2 (fl_sub rnd) (slice_from t idx) (slice_to t (- idx)) of
             Inl e \<Rightarrow> Inl e
           | Inr den \<Rightarrow>
               (case broadcast2 (fl_div rnd) num den of
                  Inl e \<Rightarrow> Inl e
                | Inr q \<Rightarrow> setitem_from (replicate (length t) NaN) idx q)))"

text \<open>
  \<^verbatim>\<open>saturated_times = t[max_growth_idx:][growth_rate[max_growth_idx:] < threshold]\<close>;
  the first of them is returned, NaN when there is none.
\<close>

definition saturated_times :: "fl list \<Rightarrow> fl list \<Rightarrow> nat \<Rightarrow> fl \<Rightarrow> fl list" where
  "saturated_times t g m threshold =
     mask_select (slice_from t (int m))
       (map (\<lambda>x. fl_lt x threshold) (slice_from g (int m)))"

definition detect_arrays ::
  "rounding \<Rightarrow> fl list \<Rightarrow> fl list \<Rightarrow> fl \<Rightarrow> fl \<Rightarrow> py_error + fl" where
  "detect_arrays rnd t phi2 window threshold =
     (let logphi2 = map (fl_log rnd) phi2 in
      case window_index rnd t window of
        Inl e \<Rightarrow> Inl e
      | Inr idx \<Rightarrow>
          (case growth_rate rnd t logphi2 idx of
             Inl e \<Rightarrow> Inl e
           | Inr g \<Rightarrow>
               (case np_nanargmax g of
                  Inl e \<Rightarrow> Inl e
                | Inr max_growth_idx \<Rightarrow>
                    (case saturated_times t g max_growth_idx threshold of
                       [] \<Rightarrow> Inr NaN
                     | s # _ \<Rightarrow> Inr s))))"

definition detect_saturation_time ::
  "rounding \<Rightarrow> dataset \<Rightarrow> fl \<Rightarrow> fl \<Rightarrow> py_error + fl" where
  "detect_saturation_time rnd ds window threshold =
     (case ds_values1 ds ''t'' of
        Inl e \<Rightarrow> Inl e
      | Inr t \<Rightarrow>
          (case ds_values1 ds ''phi2'' of
             Inl e \<Rightarrow> Inl e
           | Inr phi2 \<Rightarrow> detect_arrays rnd t phi2 window threshold))"

section \<open>The renderers\<close>

text \<open>
  A renderer draws on one pair of axes and saves the figure under
  \<^verbatim>\<open>Path(output_dir) / filename\<close>. A figure is the list of what was drawn, in order,
  and the interval shown in its title; the file system maps a path to the figure saved
  there. Matplotlib and the file system are taken to succeed: only the errors of the
  dataset accesses and of the numeric code are branches of the renderers.

  The average over time of the selected rows of a diagnostic is kept symbolic
  (\<open>MeanOverT rows\<close>): what is averaged is the list of rows.
\<close>

datatype path = PathJoin string string

datatype ydata = Values "fl list" | MeanOverT "fl list list"

datatype artist =
    Semilogy "fl list" "fl list" string
  | Plot "fl list" ydata string
  | Axvspan fl fl
  | Axvline fl

record figure =
  artists :: "artist list"
  title_interval :: "(fl \<times> fl) option"

type_synonym files = "path \<rightharpoonup> figure"

text \<open>\<^verbatim>\<open>t.max()\<close>: NaN propagates; an empty array raises.\<close>

definition np_max :: "fl list \<Rightarrow> py_error + fl" where
  "np_max xs =
     (case xs of
        [] \<Rightarrow> Inl (ValueError ''zero-size array to reduction operation maximum'')
      | x # rest \<Rightarrow>
          Inr (foldl (\<lambda>a b. if is_nan a then a else if is_nan b then b
                             else if fl_lt a b then b else a) x rest))"

text \<open>\<^verbatim>\<open>a[-1]\<close> on an array and \<^verbatim>\<open>da.isel(t=-1)\<close> on the rows of a diagnostic.\<close>

definition py_last :: "'a list \<Rightarrow> py_error + 'a" where
  "py_last xs = (if xs = [] then Inl IndexError else Inr (last xs))"

subsection \<open>Time traces of the fields\<close>

fun semilogy_lines :: "dataset \<Rightarrow> fl list \<Rightarrow> string list \<Rightarrow> py_error + artist list" where
  "semilogy_lines ds t [] = Inr []"
| "semilogy_lines ds t (field # rest) =
     (case ds_values1 ds field of
        Inl e \<Rightarrow> Inl e
      | Inr field_trace \<Rightarrow>
          (case semilogy_lines ds t rest of
             Inl e \<Rightarrow> Inl e
           | Inr others \<Rightarrow> Inr (Semilogy t field_trace field # others)))"

definition plot_fields_time_traces ::
  "rounding \<Rightarrow> dataset \<Rightarrow> string \<Rightarrow> string option \<Rightarrow> fl \<Rightarrow> fl \<Rightarrow> files \<Rightarrow>
     py_error + (path \<times> files)" where
  "plot_fields_time_traces rnd ds output_dir filename window threshold fs =
     (let fields = filter (ds_contains ds) [''phi2'', ''apar2'', ''bpar2''] in
      case detect_saturation_time rnd ds window threshold of
        Inl e \<Rightarrow> Inl e
      | Inr tsat \<Rightarrow>
          (let name = (case filename of None \<Rightarrow> ''field_time_traces.png'' | Some f \<Rightarrow> f) in
           case ds_values1 ds ''t'' of
             Inl e \<Rightarrow> Inl e
           | Inr t \<Rightarrow>
               (case semilogy_lines ds t fields of
                  Inl e \<Rightarrow> Inl e
                | Inr lines \<Rightarrow>
                    (case (if \<not> is_nan tsat
                           then (case np_max t of
                                   Inl e \<Rightarrow> Inl e
                                 | Inr tmax \<Rightarrow> Inr [Axvspan tsat tmax, Axvline tsat])
                           else Inr []) of
                       Inl e \<Rightarrow> Inl e
                     | Inr marks \<Rightarrow>
                         (let output_path = PathJoin output_dir name in
                          Inr (output_path,
                               fs(output_path \<mapsto>
                                  \<lparr>artists = lines @ marks, title_interval = None\<rparr>)))))))"

subsection \<open>Poloidal transfer\<close>

definition all_diags :: "string list" where
  "all_diags = [''kinetic_energy_transfer_theta'', ''entropy_transfer_phi_theta'',
                ''entropy_transfer_apar_theta'', ''entropy_transfer_bpar_theta'']"

text \<open>The legend labels of the diagnostics (their TeX markup written without backslashes).\<close>

definition labels :: "string \<rightharpoonup> string" where
  "labels = [''kinetic_energy_transfer_theta'' \<mapsto> ''$T_v^text{ZF}$'',
             ''entropy_transfer_phi_theta'' \<mapsto> ''$T_{S,phi}^text{ZF}$'',
             ''entropy_transfer_apar_theta'' \<mapsto> ''$T_{S,A_parallel}^text{ZF}$'',
             ''entropy_transfer_bpar_theta'' \<mapsto> ''$T_{S,B_parallel}^text{ZF}$'']"

definition get_label :: "string \<Rightarrow> py_error + string" where
  "get_label diag = (case labels diag of None \<Rightarrow> Inl (KeyError diag) | Some l \<Rightarrow> Inr l)"

fun last_step_lines :: "dataset \<Rightarrow> fl list \<Rightarrow> string list \<Rightarrow> py_error + artist list" where
  "last_step_lines ds theta [] = Inr []"
| "last_step_lines ds theta (diag # rest) =
     (case ds_values2 ds diag of
        Inl e \<Rightarrow> Inl e
      | Inr rows \<Rightarrow>
          (case py_last rows of
             Inl e \<Rightarrow> Inl e
           | Inr transfer \<Rightarrow>
               (case get_label diag of
                  Inl e \<Rightarrow> Inl e
                | Inr l \<Rightarrow>
                    (case last_step_lines ds theta rest of
                       Inl e \<Rightarrow> Inl e
                     | Inr others \<Rightarrow> Inr (Plot theta (Values transfer) l # others)))))"

definition plot_transfer_by_theta ::
  "dataset \<Rightarrow> string \<Rightarrow> string option \<Rightarrow> files \<Rightarrow> py_error + (path \<times> files)" where
  "plot_transfer_by_theta ds output_dir filename fs =
     (let enabled_diagnostics = filter (ds_contains ds) all_diags;
          name = (case filename of None \<Rightarrow> ''transfer_by_theta.png'' | Some f \<Rightarrow> f) in
      case ds_values1 ds ''theta'' of
        Inl e \<Rightarrow> Inl e
      | Inr theta \<Rightarrow>
          (case last_step_lines ds theta enabled_diagnostics of
             Inl e \<Rightarrow> Inl e
           | Inr lines \<Rightarrow>
               (let output_path = PathJoin output_dir name in
                Inr (output_path,
                     fs(output_path \<mapsto> \<lparr>artists = lines, title_interval = None\<rparr>)))))"

text \<open>
  \<^verbatim>\<open>da.sel(t=slice(tstart, tend))\<close>: a slice by label on the increasing time index, both
  bounds included. The positions are found by binary search on the index (the first
  position whose time is not below \<open>tstart\<close>, and the first whose time is above \<open>tend\<close>).
\<close>

definition sel_t_slice :: "fl list \<Rightarrow> 'a list \<Rightarrow> fl \<Rightarrow> fl \<Rightarrow> 'a list" where
  "sel_t_slice t rows lo hi =
     (let start = length (takeWhile (\<lambda>x. fl_lt x lo) t);
          stop = length (takeWhile (\<lambda>x. fl_le x hi) t)
      in take (stop - start) (drop start rows))"

fun averaged_lines ::
  "dataset \<Rightarrow> fl list \<Rightarrow> fl \<Rightarrow> fl \<Rightarrow> string list \<Rightarrow> py_error + artist list" where
  "averaged_lines ds theta tstart tend [] = Inr []"
| "averaged_lines ds theta tstart tend (diag # rest) =
     (case ds_values2 ds diag of
        Inl e \<Rightarrow> Inl e
      | Inr rows \<Rightarrow>
          (case ds_values1 ds ''t'' of
             Inl e \<Rightarrow> Inl e
           | Inr t \<Rightarrow>
               (case get_label diag of
                  Inl e \<Rightarrow> Inl e
                | Inr l \<Rightarrow>
                    (case averaged_lines ds theta tstart tend rest of
                       Inl e \<Rightarrow> Inl e
                     | Inr others \<Rightarrow>
                         Inr (Plot theta (MeanOverT (sel_t_slice t rows tstart tend)) l
                              # others)))))"

text \<open>
  \<^verbatim>\<open>if tstart is None: tstart = float(ds["t"].values[-1]) - window\<close>
  \<^verbatim>\<open>tend = tstart + window\<close>
\<close>

definition averaging_window ::
  "rounding \<Rightarrow> dataset \<Rightarrow> fl \<Rightarrow> fl option \<Rightarrow> py_error + (fl \<times> fl)" where
  "averaging_window rnd ds window tstart =
     (case (case tstart of
              None \<Rightarrow>
                (case ds_values1 ds ''t'' of
                   Inl e \<Rightarrow> Inl e
                 | Inr t \<Rightarrow>
                     (case py_last t of
                        Inl e \<Rightarrow> Inl e
                      | Inr tlast \<Rightarrow> Inr (fl_sub rnd tlast window)))
            | Some s \<Rightarrow> Inr s) of
        Inl e \<Rightarrow> Inl e
      | Inr tstart' \<Rightarrow> Inr (tstart', fl_add rnd tstart' window))"

definition plot_transfer_by_theta_averaged ::
  "rounding \<Rightarrow> dataset \<Rightarrow> fl \<Rightarrow> fl option \<Rightarrow> string \<Rightarrow> string option \<Rightarrow> files \<Rightarrow>
     py_error + (path \<times> files)" where
  "plot_transfer_by_theta_averaged rnd ds window tstart output_dir filename fs =
     (let enabled_diagnostics = filter (ds_contains ds) all_diags in
      case averaging_window rnd ds window tstart of
        Inl e \<Rightarrow> Inl e
      | Inr (tstart', tend) \<Rightarrow>
          (let name = (case filename of
                         None \<Rightarrow> ''transfer_by_theta_averaged.png'' | Some f \<Rightarrow> f) in
           case ds_values1 ds ''theta'' of
             Inl e \<Rightarrow> Inl e
           | Inr theta \<Rightarrow>
               (case averaged_lines ds theta tstart' tend enabled_diagnostics of
                  Inl e \<Rightarrow> Inl e
                | Inr lines \<Rightarrow>
                    (let output_path = PathJoin output_dir name in
                     Inr (output_path,
                          fs(output_path \<mapsto>
                             \<lparr>artists = lines, title_interval = Some (tstart', tend)\<rparr>))))))"

section \<open>Concrete datasets\<close>

text \<open>Four samples: growth at rate one over the first interval, then a flat field.\<close>

definition w1_t :: "fl list" where
  "w1_t = [Fin 0, Fin 1, Fin 2, Fin 3]"

definition w1_phi2 :: "fl list" where
  "w1_phi2 = [Fin 1, Fin (exp 1), Fin (exp 1), Fin (exp 1)]"

definition ds_w1 :: dataset where
  "ds_w1 = \<lparr>arrays1 = [''t'' \<mapsto> w1_t, ''phi2'' \<mapsto> w1_phi2], arrays2 = Map.empty\<rparr>"

text \<open>Four samples of a field that grows at rate one throughout.\<close>

definition grow_phi2 :: "fl list" where
  "grow_phi2 = [Fin 1, Fin (exp 1), Fin (exp 2), Fin (exp 3)]"

definition ds_grow :: dataset where
  "ds_grow = \<lparr>arrays1 = [''t'' \<mapsto> w1_t, ''phi2'' \<mapsto> grow_phi2], arrays2 = Map.empty\<rparr>"

text \<open>Two samples only, shorter than the default window of 20 time units.\<close>

definition ds_short :: dataset where
  "ds_short = \<lparr>arrays1 = [''t'' \<mapsto> [Fin 0, Fin 1], ''phi2'' \<mapsto> [Fin 1, Fin 1]],
               arrays2 = Map.empty\<rparr>"

text \<open>A field that is negative everywhere.\<close>

definition ds_negative :: dataset where
  "ds_negative = \<lparr>arrays1 = [''t'' \<mapsto> [Fin 0, Fin 1, Fin 2],
                               ''phi2'' \<mapsto> [Fin (- 1), Fin (- 1), Fin (- 1)]],
                  arrays2 = Map.empty\<rparr>"

text \<open>A flat field, and a field array one sample shorter than the time array.\<close>

definition ds_flat :: dataset where
  "ds_flat = \<lparr>arrays1 = [''t'' \<mapsto> [Fin 0, Fin 1, Fin 2], ''phi2'' \<mapsto> [Fin 1, Fin 1, Fin 1]],
              arrays2 = Map.empty\<rparr>"

definition ds_unequal :: dataset where
  "ds_unequal = \<lparr>arrays1 = [''t'' \<mapsto> [Fin 0, Fin 1, Fin 2], ''phi2'' \<mapsto> [Fin 1, Fin 1]],
                 arrays2 = Map.empty\<rparr>"

text \<open>
  The end-to-end scenario of the specification: fifty samples at unit spacing, a field
  growing as \<open>exp (t / 2)\<close> up to \<open>t = 25\<close> and flat afterwards.
\<close>

definition scenario_time :: "fl list" where
  "scenario_time = map (\<lambda>i. Fin (real i)) [0..<50]"

definition scenario_field :: "fl list" where
  "scenario_field = map (\<lambda>i. Fin (exp (1 / 2 * real (min i 25)))) [0..<50]"

definition ds_scenario :: dataset where
  "ds_scenario = \<lparr>arrays1 = [''t'' \<mapsto> scenario_time, ''phi2'' \<mapsto> scenario_field],
                  arrays2 = Map.empty\<rparr>"

text \<open>A field that grows at rate one and ends in a zero; a field with one negative value.\<close>

definition zero_phi2 :: "fl list" where
  "zero_phi2 = [Fin 1, Fin (exp 1), Fin (exp 2), Fin 0]"

definition ds_zero :: dataset where
  "ds_zero = \<lparr>arrays1 = [''t'' \<mapsto> w1_t, ''phi2'' \<mapsto> zero_phi2], arrays2 = Map.empty\<rparr>"

definition neg_phi2 :: "fl list" where
  "neg_phi2 = [Fin 1, Fin (exp 1), Fin (- 1), Fin 1]"

definition ds_neg :: dataset where
  "ds_neg = \<lparr>arrays1 = [''t'' \<mapsto> w1_t, ''phi2'' \<mapsto> neg_phi2], arrays2 = Map.empty\<rparr>"

text \<open>A dataset with a time coordinate and none of the fields.\<close>

definition ds_no_fields :: dataset where
  "ds_no_fields = \<lparr>arrays1 = [''t'' \<mapsto> [Fin 0, Fin 1, Fin 2]], arrays2 = Map.empty\<rparr>"

text \<open>A dataset with the coordinates and none of the transfer diagnostics.\<close>

definition ds_no_diags :: dataset where
  "ds_no_diags = \<lparr>arrays1 = [''t'' \<mapsto> [Fin 0, Fin 1, Fin 2], ''theta'' \<mapsto> [Fin 0, Fin 1]],
                  arrays2 = Map.empty\<rparr>"

text \<open>
  Two samples, the last at the binary64 number nearest to 420.2, and one diagnostic on a
  single \<open>theta\<close>; and the example of the specification with the series ending at 100.
\<close>

definition t_4202 :: real where
  "t_4202 = 7392236575863603 / 2 ^ 44"

definition ds_round :: dataset where
  "ds_round = \<lparr>arrays1 = [''t'' \<mapsto> [Fin 400, Fin t_4202], ''theta'' \<mapsto> [Fin 0]],
               arrays2 = [''kinetic_energy_transfer_theta'' \<mapsto> [[Fin 1], [Fin 2]]]\<rparr>"

definition hundred_t :: "fl list" where
  "hundred_t = [Fin 80, Fin 90, Fin 100]"

definition ds_hundred :: dataset where
  "ds_hundred = \<lparr>arrays1 = [''t'' \<mapsto> hundred_t, ''theta'' \<mapsto> [Fin 0]],
                 arrays2 = [''kinetic_energy_transfer_theta'' \<mapsto> [[Fin 1], [Fin 2], [Fin 3]]]\<rparr>"

section \<open>Facts about the operations\<close>

subsection \<open>The order on the values\<close>

lemma fl_le_refl: "\<not> is_nan x \<Longrightarrow> fl_le x x"
  by (cases x) auto

lemma fl_le_trans: "fl_le x y \<Longrightarrow> fl_le y z \<Longrightarrow> fl_le x z"
  by (cases x; cases y; cases z) auto

lemma fl_lt_trans: "fl_lt x y \<Longrightarrow> fl_lt y z \<Longrightarrow> fl_lt x z"
  by (cases x; cases y; cases z) auto

lemma fl_lt_le_trans: "fl_lt x y \<Longrightarrow> fl_le y z \<Longrightarrow> fl_lt x z"
  by (cases x; cases y; cases z) auto

lemma fl_le_lt_trans: "fl_le x y \<Longrightarrow> fl_lt y z \<Longrightarrow> fl_lt x z"
  by (cases x; cases y; cases z) auto

lemma fl_not_le: "\<not> is_nan x \<Longrightarrow> \<not> is_nan y \<Longrightarrow> \<not> fl_le x y \<Longrightarrow> fl_lt y x"
  by (cases x; cases y) auto

lemma fl_lt_imp_le: "fl_lt x y \<Longrightarrow> fl_le x y"
  by (cases x; cases y) auto

lemma fl_le_not_lt: "fl_le x y \<Longrightarrow> \<not> fl_lt y x"
  by (cases x; cases y) auto

lemma fl_le_iff_not_lt: "\<not> is_nan x \<Longrightarrow> \<not> is_nan y \<Longrightarrow> fl_le x y = (\<not> fl_lt y x)"
  by (cases x; cases y) auto

lemma fl_lt_not_nan: "fl_lt x y \<Longrightarrow> \<not> is_nan x \<and> \<not> is_nan y"
  by (cases x; cases y) auto

lemma fl_le_not_nan: "fl_le x y \<Longrightarrow> \<not> is_nan x \<and> \<not> is_nan y"
  by (cases x; cases y) auto

lemma fl_le_NInf: "fl_le x NInf \<Longrightarrow> x = NInf"
  by (cases x) auto

lemma nan_never_compares: "is_nan x \<Longrightarrow> \<not> fl_lt x y \<and> \<not> fl_lt y x"
  by (cases x; cases y) auto

lemma is_finite_not_nan: "is_finite x \<Longrightarrow> \<not> is_nan x"
  by (cases x) auto

lemma sorted_wrt_fl_lt_not_nan:
  assumes "sorted_wrt fl_lt t" and "2 \<le> length t" and "i < length t"
  shows "\<not> is_nan (t ! i)"
proof (cases "i = 0")
  case True
  then have "fl_lt (t ! i) (t ! 1)" using assms by (simp add: sorted_wrt_iff_nth_less)
  then show ?thesis using fl_lt_not_nan by blast
next
  case False
  then have "fl_lt (t ! 0) (t ! i)" using assms by (simp add: sorted_wrt_iff_nth_less)
  then show ?thesis using fl_lt_not_nan by blast
qed

lemma sorted_wrt_fl_lt_le:
  assumes "sorted_wrt fl_lt t" and "2 \<le> length t" and "i \<le> j" and "j < length t"
  shows "fl_le (t ! i) (t ! j)"
proof (cases "i = j")
  case True
  then show ?thesis using sorted_wrt_fl_lt_not_nan[OF assms(1,2,4)] by (simp add: fl_le_refl)
next
  case False
  then have "fl_lt (t ! i) (t ! j)" using assms by (simp add: sorted_wrt_iff_nth_less)
  then show ?thesis by (rule fl_lt_imp_le)
qed

subsection \<open>Special values of the arithmetic\<close>

lemma fl_log_negative: "fl_lt x (Fin 0) \<Longrightarrow> fl_log rnd x = NaN"
  by (cases x) auto

lemma fl_sub_NaN: "fl_sub rnd NaN y = NaN" "fl_sub rnd x NaN = NaN"
  by (cases x; simp add: fl_sub_def)+

lemma fl_sub_finite: "is_finite a \<Longrightarrow> is_finite b \<Longrightarrow> is_finite (fl_sub rnd a b)"
  by (cases a; cases b) (auto simp: fl_sub_def)

lemma fl_add_finite: "is_finite a \<Longrightarrow> is_finite b \<Longrightarrow> is_finite (fl_add rnd a b)"
  by (cases a; cases b) auto

lemma finite_growth_rate_entry:
  assumes "no_flush rnd" and "positive p" and "positive p'"
    and "is_finite a" and "is_finite b" and "fl_lt b a"
  shows "is_finite (fl_div rnd (fl_sub rnd (fl_log rnd p) (fl_log rnd p')) (fl_sub rnd a b))"
proof -
  obtain x y where p: "p = Fin x" "0 < x" "p' = Fin y" "0 < y"
    using assms(2,3) by (cases p; cases p') (auto simp: positive_def)
  obtain u v where a: "a = Fin u" "b = Fin v" "v < u"
    using assms(4,5,6) by (cases a; cases b) auto
  have "u + - v \<noteq> 0" using a(3) by simp
  then have "rnd (u + - v) \<noteq> 0" using assms(1) unfolding no_flush_def by blast
  then show ?thesis using p a by (simp add: fl_sub_def)
qed

subsection \<open>Roundings\<close>

lemma no_flush_exact: "no_flush exact"
  by (simp add: no_flush_def exact_def)

lemma exact_rel_err: "rel_err exact d = (0 \<le> d)"
proof
  assume "rel_err exact d"
  then have "\<bar>exact 1 - 1\<bar> \<le> d * \<bar>1::real\<bar>" unfolding rel_err_def by blast
  then show "0 \<le> d" by (simp add: exact_def)
next
  assume "0 \<le> d"
  then show "rel_err exact d" by (simp add: rel_err_def exact_def)
qed

lemma exact_exact_on_ints: "exact_on_ints exact b"
  by (simp add: exact_on_ints_def exact_def)

lemma exact_on_ints_nat:
  assumes "exact_on_ints rnd 50" and "n \<le> 50"
  shows "rnd (real n) = real n"
proof -
  have "\<bar>int n\<bar> \<le> 50" using assms(2) by simp
  then have "rnd (of_int (int n)) = of_int (int n)"
    using assms(1) unfolding exact_on_ints_def by blast
  then show ?thesis by simp
qed

lemma exact_on_ints_mono: "exact_on_ints rnd b \<Longrightarrow> c \<le> b \<Longrightarrow> exact_on_ints rnd c"
  unfolding exact_on_ints_def by auto

lemma rel_err_zero: "rel_err rnd d \<Longrightarrow> rnd 0 = 0"
  unfolding rel_err_def by (drule spec[of _ 0]) simp

text \<open>
  The growth rate of the scenario under a rounding with relative error at most
  \<open>1 / 1000\<close>, for a field whose logarithm is within \<open>1 / 1000\<close> of \<open>i / 2\<close>.
\<close>

lemma rel_err_bound:
  assumes "rel_err rnd d" and "0 \<le> d" and "- B \<le> x" and "x \<le> B"
  shows "x - d * B \<le> rnd x" and "rnd x \<le> x + d * B"
proof -
  have "\<bar>x\<bar> \<le> B" using assms(3,4) by (simp add: abs_le_iff)
  then have "d * \<bar>x\<bar> \<le> d * B" using assms(2) by (rule mult_left_mono)
  moreover have "\<bar>rnd x - x\<bar> \<le> d * \<bar>x\<bar>" using assms(1) unfolding rel_err_def by blast
  ultimately have "\<bar>rnd x - x\<bar> \<le> d * B" by (rule order_trans[rotated])
  then have "rnd x - x \<le> d * B" "- (rnd x - x) \<le> d * B" by (simp_all add: abs_le_iff)
  then show "x - d * B \<le> rnd x" and "rnd x \<le> x + d * B" by simp_all
qed

lemma round_half_even_err: "\<bar>of_int (round_half_even y) - y\<bar> \<le> 1 / 2"
proof -
  have "of_int \<lfloor>y\<rfloor> \<le> y" "y < of_int \<lfloor>y\<rfloor> + 1" by linarith+
  then show ?thesis by (auto simp: round_half_even_def Let_def)
qed

lemma round_half_even_int: "round_half_even (of_int k) = k"
  by (simp add: round_half_even_def)

lemma floor_log2:
  assumes "0 < x" and "2 powr (of_int e) \<le> x" and "x < 2 powr (of_int (e + 1))"
  shows "\<lfloor>log 2 x\<rfloor> = e"
proof -
  have "of_int e \<le> log 2 x" using assms(1,2) by (simp add: le_log_iff)
  moreover have "log 2 x < of_int (e + 1)" using assms(1,3) by (simp add: log_less_iff)
  ultimately show ?thesis by (simp add: floor_unique)
qed

lemma log2_bounds:
  assumes "0 < x"
  shows "2 powr (of_int \<lfloor>log 2 x\<rfloor>) \<le> x" and "x < 2 powr (of_int (\<lfloor>log 2 x\<rfloor> + 1))"
proof -
  show "2 powr (of_int \<lfloor>log 2 x\<rfloor>) \<le> x"
    by (rule iffD1[OF le_log_iff]) (use assms in simp_all)
  have "log 2 x < of_int (\<lfloor>log 2 x\<rfloor> + 1)" by linarith
  then show "x < 2 powr (of_int (\<lfloor>log 2 x\<rfloor> + 1))"
    by (rule iffD1[OF log_less_iff, rotated 2]) (use assms in simp_all)
qed

lemma binary64_normal:
  assumes "x \<noteq> 0" and "2 powr (of_int e) \<le> \<bar>x\<bar>" and "\<bar>x\<bar> < 2 powr (of_int (e + 1))"
  shows "binary64 x = 2 powr (of_int (e - 52)) *
           of_int (round_half_even (x / 2 powr (of_int (e - 52))))"
proof -
  have "\<lfloor>log 2 \<bar>x\<bar>\<rfloor> = e" using floor_log2[of "\<bar>x\<bar>" e] assms by simp
  then show ?thesis using assms(1) by (simp add: binary64_def Let_def)
qed

lemma binary64_rel_err: "rel_err binary64 (1 / 1000)"
  unfolding rel_err_def
proof
  fix x :: real
  show "\<bar>binary64 x - x\<bar> \<le> 1 / 1000 * \<bar>x\<bar>"
  proof (cases "x = 0")
    case True
    then show ?thesis by (simp add: binary64_def)
  next
    case False
    define e where "e = \<lfloor>log 2 \<bar>x\<bar>\<rfloor>"
    define u :: real where "u = 2 powr (of_int (e - 52))"
    have u0: "0 < u" by (simp add: u_def)
    have b: "binary64 x = u * of_int (round_half_even (x / u))"
      using False by (simp add: binary64_def Let_def e_def u_def)
    have "\<bar>of_int (round_half_even (x / u)) - x / u\<bar> \<le> 1 / 2" by (rule round_half_even_err)
    then have "u * \<bar>of_int (round_half_even (x / u)) - x / u\<bar> \<le> u * (1 / 2)"
      using u0 by (intro mult_left_mono) simp_all
    moreover have "u * \<bar>of_int (round_half_even (x / u)) - x / u\<bar> =
                   \<bar>u * of_int (round_half_even (x / u)) - x\<bar>"
    proof -
      have "u * \<bar>of_int (round_half_even (x / u)) - x / u\<bar> =
            \<bar>u * (of_int (round_half_even (x / u)) - x / u)\<bar>"
        using u0 by (simp add: abs_mult)
      also have "u * (of_int (round_half_even (x / u)) - x / u) =
                 u * of_int (round_half_even (x / u)) - x"
        using u0 by (simp add: algebra_simps)
      finally show ?thesis .
    qed
    ultimately have err: "\<bar>binary64 x - x\<bar> \<le> u / 2" using b by simp
    have "2 powr (of_int e) \<le> \<bar>x\<bar>" using log2_bounds(1)[of "\<bar>x\<bar>"] False by (simp add: e_def)
    moreover have "u = 2 powr (of_int e) / 2 powr 52"
      by (simp add: u_def powr_diff)
    ultimately have "u \<le> \<bar>x\<bar> / 2 powr 52" by (simp add: divide_right_mono)
    also have "\<dots> \<le> \<bar>x\<bar> / 500" by (intro divide_left_mono) simp_all
    finally have "u / 2 \<le> 1 / 1000 * \<bar>x\<bar>" by simp
    then show ?thesis using err by linarith
  qed
qed

lemma binary64_exact_on_ints: "exact_on_ints binary64 (2 ^ 52)"
  unfolding exact_on_ints_def
proof (intro allI impI)
  fix k :: int assume k: "\<bar>k\<bar> \<le> 2 ^ 52"
  show "binary64 (of_int k) = of_int k"
  proof (cases "k = 0")
    case True
    then show ?thesis by (simp add: binary64_def)
  next
    case False
    define x :: real where "x = of_int k"
    define e where "e = \<lfloor>log 2 \<bar>x\<bar>\<rfloor>"
    have x0: "x \<noteq> 0" "1 \<le> \<bar>x\<bar>" using False by (simp_all add: x_def)
    have "\<bar>x\<bar> \<le> 2 ^ 52" using k unfolding x_def
      by (metis of_int_abs of_int_le_iff of_int_numeral of_int_power)
    then have "log 2 \<bar>x\<bar> \<le> 52" using x0 by (simp add: log_le_iff)
    then have e52: "e \<le> 52" unfolding e_def by (simp add: floor_le_iff)
    have "0 \<le> log 2 \<bar>x\<bar>" using x0 by simp
    then have e0: "0 \<le> e" unfolding e_def by simp
    define n where "n = nat (52 - e)"
    have "2 powr (of_int (e - 52)) = 1 / (2::real) ^ n"
    proof -
      have "of_int (e - 52) = - real n" using e52 by (simp add: n_def)
      then show ?thesis by (simp add: powr_minus powr_realpow divide_inverse)
    qed
    then have u: "2 powr (of_int (e - 52)) = 1 / (2::real) ^ n" .
    have "x / (1 / 2 ^ n) = of_int (k * 2 ^ n)" by (simp add: x_def)
    then have "round_half_even (x / (1 / 2 ^ n)) = k * 2 ^ n"
      using round_half_even_int by metis
    then have "binary64 x = (1 / 2 ^ n) * of_int (k * 2 ^ n)"
      using x0 u by (simp add: binary64_def Let_def e_def)
    then show ?thesis by (simp add: x_def)
  qed
qed

lemma no_flush_binary64: "no_flush binary64"
  unfolding no_flush_def
proof (intro allI impI)
  fix x :: real assume x: "x \<noteq> 0"
  define e where "e = \<lfloor>log 2 \<bar>x\<bar>\<rfloor>"
  define u :: real where "u = 2 powr (of_int (e - 52))"
  have u0: "0 < u" by (simp add: u_def)
  have b: "binary64 x = u * of_int (round_half_even (x / u))"
    using x by (simp add: binary64_def Let_def e_def u_def)
  have "2 powr (of_int e) \<le> \<bar>x\<bar>" using log2_bounds(1)[of "\<bar>x\<bar>"] x by (simp add: e_def)
  moreover have "2 powr (of_int e) = u * 2 powr 52"
    by (simp add: u_def powr_diff)
  moreover have "(1::real) \<le> 2 powr 52" by simp
  ultimately have "u * 1 \<le> \<bar>x\<bar>"
    using u0 by (metis mult_left_mono less_imp_le order_trans)
  then have "1 \<le> \<bar>x\<bar> / u" using u0 by (simp add: le_divide_eq)
  then have big: "1 \<le> \<bar>x / u\<bar>" using u0 by simp
  have err: "\<bar>of_int (round_half_even (x / u)) - x / u\<bar> \<le> 1 / 2"
    by (rule round_half_even_err)
  have "round_half_even (x / u) \<noteq> 0"
  proof
    assume "round_half_even (x / u) = 0"
    then have "\<bar>- (x / u)\<bar> \<le> 1 / 2" using err by simp
    then have "\<bar>x / u\<bar> \<le> 1 / 2" by (simp only: abs_minus_cancel)
    then show False using big by linarith
  qed
  then show "binary64 x \<noteq> 0" using b u0 by simp
qed

lemma binary64_zero: "binary64 0 = 0"
  by (simp add: binary64_def)

lemma binary64_one: "binary64 1 = 1"
proof -
  have "\<bar>1::int\<bar> \<le> 2 ^ 52" by simp
  then have "binary64 (of_int 1) = of_int 1"
    using binary64_exact_on_ints unfolding exact_on_ints_def by blast
  then show ?thesis by simp
qed

lemma binary64_half: "binary64 (1 / 2) = 1 / 2"
proof -
  have "binary64 (1 / 2) =
        2 powr (of_int (- 1 - 52)) *
           of_int (round_half_even ((1 / 2) / 2 powr (of_int (- 1 - 52))))"
    by (rule binary64_normal) (simp_all add: powr_minus)
  also have "\<dots> = 1 / 2"
    by (simp add: round_half_even_def Let_def powr_neg_numeral)
  finally show ?thesis .
qed

lemma b64_tstart:
  "binary64 (7392236575863603 / 2 ^ 44 + - (2371426678787277 / 2 ^ 45)) = 1551630809117491 / 2 ^ 42"
proof -
  have "binary64 (7392236575863603 / 2 ^ 44 + - (2371426678787277 / 2 ^ 45)) =
        2 powr (of_int (8 - 52)) *
           of_int (round_half_even ((7392236575863603 / 2 ^ 44 + - (2371426678787277 / 2 ^ 45)) / 2 powr (of_int (8 - 52))))"
    by (rule binary64_normal) simp_all
  also have "\<dots> = 1551630809117491 / 2 ^ 42"
    by (simp add: round_half_even_def Let_def powr_neg_numeral)
  finally show ?thesis .
qed

lemma b64_tend:
  "binary64 (1551630809117491 / 2 ^ 42 + 2371426678787277 / 2 ^ 45) = 7392236575863602 / 2 ^ 44"
proof -
  have "binary64 (1551630809117491 / 2 ^ 42 + 2371426678787277 / 2 ^ 45) =
        2 powr (of_int (8 - 52)) *
           of_int (round_half_even ((1551630809117491 / 2 ^ 42 + 2371426678787277 / 2 ^ 45) / 2 powr (of_int (8 - 52))))"
    by (rule binary64_normal) simp_all
  also have "\<dots> = 7392236575863602 / 2 ^ 44"
    by (simp add: round_half_even_def Let_def powr_neg_numeral)
  finally show ?thesis .
qed

lemma b64_90: "binary64 (100 + - 10) = 90"
proof -
  have "binary64 (100 + - 10) =
        2 powr (of_int (6 - 52)) *
           of_int (round_half_even ((100 + - 10) / 2 powr (of_int (6 - 52))))"
    by (rule binary64_normal) simp_all
  also have "\<dots> = 90"
    by (simp add: round_half_even_def Let_def powr_neg_numeral)
  finally show ?thesis .
qed

lemma b64_100: "binary64 (90 + 10) = 100"
proof -
  have "binary64 (90 + 10) =
        2 powr (of_int (6 - 52)) *
           of_int (round_half_even ((90 + 10) / 2 powr (of_int (6 - 52))))"
    by (rule binary64_normal) simp_all
  also have "\<dots> = 100"
    by (simp add: round_half_even_def Let_def powr_neg_numeral)
  finally show ?thesis .
qed

text \<open>Rounding to the nearest integer does not cross an integer.\<close>

lemma round_half_even_le: "y \<le> of_int n \<Longrightarrow> round_half_even y \<le> n"
proof -
  assume a: "y \<le> of_int n"
  then have f: "\<lfloor>y\<rfloor> \<le> n" by (simp add: floor_le_iff) 
  show ?thesis
  proof (cases "\<lfloor>y\<rfloor> = n")
    case True
    then have "y = of_int n" using a by linarith
    then show ?thesis by (simp add: round_half_even_def)
  next
    case False
    then have "\<lfloor>y\<rfloor> + 1 \<le> n" using f by simp
    then show ?thesis by (simp add: round_half_even_def Let_def)
  qed
qed

lemma round_half_even_ge: "of_int n \<le> y \<Longrightarrow> n \<le> round_half_even y"
proof -
  assume "of_int n \<le> y"
  then have "n \<le> \<lfloor>y\<rfloor>" by (simp add: le_floor_iff)
  then show ?thesis by (simp add: round_half_even_def Let_def)
qed

lemma powr_int_ge2:
  assumes "a < b"
  shows "2 * 2 powr (of_int a) \<le> (2::real) powr (of_int b)"
proof -
  have "a + 1 \<le> b" using assms by simp
  then have le: "(of_int (a + 1) :: real) \<le> of_int b" by (simp only: of_int_le_iff)
  have eq: "2 * 2 powr (of_int a) = (2::real) powr (of_int (a + 1))"
    by (simp add: powr_add)
  show ?thesis unfolding eq by (rule powr_mono[OF le]) simp
qed

lemma real_mantissa:
  fixes m :: int
  assumes "2 ^ 52 \<le> m" and "m < 2 ^ 53"
  shows "(2::real) ^ 52 \<le> of_int m" and "of_int m \<le> (2::real) ^ 53 - 1"
proof -
  have "(of_int (2 ^ 52) :: real) \<le> of_int m" using assms(1) by (simp only: of_int_le_iff)
  then show "(2::real) ^ 52 \<le> of_int m" by simp
  have "m \<le> 2 ^ 53 - 1" using assms(2) by simp
  then have "(of_int m :: real) \<le> of_int (2 ^ 53 - 1)" by (simp only: of_int_le_iff)
  then show "of_int m \<le> (2::real) ^ 53 - 1" by simp
qed

text \<open>
  Every positive rounded number has a 53 bit significand: it is \<open>m * 2 ^ e\<close> with
  \<open>2 ^ 52 \<le> m < 2 ^ 53\<close>.
\<close>

lemma binary64_repr:
  assumes "0 < y"
  shows "\<exists>m e. binary64 y = of_int m * 2 powr (of_int e) \<and> 2 ^ 52 \<le> m \<and> m < 2 ^ 53"
proof -
  define e where "e = \<lfloor>log 2 y\<rfloor>"
  define u :: real where "u = 2 powr (of_int (e - 52))"
  define r where "r = round_half_even (y / u)"
  have u0: "0 < u" by (simp add: u_def)
  have b: "binary64 y = of_int r * u"
    using assms by (simp add: binary64_def Let_def e_def u_def r_def)
  have lo: "2 powr (of_int e) \<le> y" and hi: "y < 2 powr (of_int (e + 1))"
    using log2_bounds[OF assms] by (simp_all add: e_def)
  have pe: "2 powr (of_int e) = 2 ^ 52 * u"
    by (simp add: u_def powr_diff)
  have "(2::real) powr (of_int (e + 1)) = 2 powr (of_int e) * 2 powr 1"
    by (simp only: of_int_add of_int_1 powr_add)
  then have pe1: "2 powr (of_int (e + 1)) = 2 ^ 53 * u"
    unfolding pe by simp
  have "2 ^ 52 * u \<le> y" using lo unfolding pe .
  then have "2 ^ 52 \<le> y / u" using u0 by (simp only: pos_le_divide_eq)
  then have "of_int (2 ^ 52) \<le> y / u" by simp
  then have r1: "2 ^ 52 \<le> r" unfolding r_def by (rule round_half_even_ge)
  have "y < 2 ^ 53 * u" using hi unfolding pe1 .
  then have "y / u < 2 ^ 53" using u0 by (simp only: pos_divide_less_eq)
  then have "y / u \<le> of_int (2 ^ 53)" by simp
  then have r2: "r \<le> 2 ^ 53" unfolding r_def by (rule round_half_even_le)
  show ?thesis
  proof (cases "r = 2 ^ 53")
    case True
    have "(2::real) powr (of_int (e - 51)) = 2 powr (of_int (e - 52)) * 2 powr 1"
      by (simp only: powr_add[symmetric]) simp
    then have "2 powr (of_int (e - 51)) = 2 * u" by (simp add: u_def)
    then have "binary64 y = of_int (2 ^ 52) * 2 powr (of_int (e - 51))"
      using b True by simp
    moreover have "(2::int) ^ 52 \<le> 2 ^ 52" "(2::int) ^ 52 < 2 ^ 53" by simp_all
    ultimately show ?thesis by (intro exI[of _ "2 ^ 52"] exI[of _ "e - 51"] conjI)
  next
    case False
    then have r3: "r < 2 ^ 53" using r2 by simp
    have "binary64 y = of_int r * 2 powr (of_int (e - 52))" using b by (simp only: u_def)
    then show ?thesis using r1 r3 by (intro exI[of _ r] exI[of _ "e - 52"] conjI)
  qed
qed

text \<open>Rounding keeps the sign.\<close>

lemma binary64_nonpos:
  assumes "y \<le> 0"
  shows "binary64 y \<le> 0"
proof (cases "y = 0")
  case True
  then show ?thesis by (simp add: binary64_def)
next
  case False
  define u :: real where "u = 2 powr (of_int (\<lfloor>log 2 \<bar>y\<bar>\<rfloor> - 52))"
  have u0: "0 < u" by (simp add: u_def)
  have b: "binary64 y = u * of_int (round_half_even (y / u))"
    using False by (simp add: binary64_def Let_def u_def)
  have "y / u \<le> of_int 0" using assms u0 by (simp add: divide_le_0_iff)
  then have "round_half_even (y / u) \<le> 0" by (rule round_half_even_le)
  then have "of_int (round_half_even (y / u)) \<le> (0::real)" by simp
  then show ?thesis unfolding b using u0 by (simp add: mult_le_0_iff)
qed

lemma binary64_nonneg:
  assumes "0 \<le> y"
  shows "0 \<le> binary64 y"
proof (cases "y = 0")
  case True
  then show ?thesis by (simp add: binary64_def)
next
  case False
  define u :: real where "u = 2 powr (of_int (\<lfloor>log 2 \<bar>y\<bar>\<rfloor> - 52))"
  have u0: "0 < u" by (simp add: u_def)
  have b: "binary64 y = u * of_int (round_half_even (y / u))"
    using False by (simp add: binary64_def Let_def u_def)
  have "of_int 0 \<le> y / u" using assms u0 by simp
  then have "0 \<le> round_half_even (y / u)" by (rule round_half_even_ge)
  then have "(0::real) \<le> of_int (round_half_even (y / u))" by simp
  then show ?thesis unfolding b using u0 by simp
qed

text \<open>
  Two binary64 numbers \<open>0 < w < d\<close> differ by at least one unit in the last place:
  their quotient is at most \<open>1 - 1 / 2 ^ 53\<close>.
\<close>

lemma mantissa_gap:
  fixes mw md ew ed :: int
  assumes mw: "2 ^ 52 \<le> mw" "mw < 2 ^ 53" and md: "2 ^ 52 \<le> md" "md < 2 ^ 53"
    and lt: "of_int mw * 2 powr (of_int ew) < of_int md * (2::real) powr (of_int ed)"
  shows "of_int mw * 2 powr (of_int ew) * 2 ^ 53 \<le>
         of_int md * (2::real) powr (of_int ed) * (2 ^ 53 - 1)"
proof -
  define P :: real where "P = 2 powr (of_int ew)"
  define Q :: real where "Q = 2 powr (of_int ed)"
  have P0: "0 < P" and Q0: "0 < Q" by (simp_all add: P_def Q_def)
  note rw = real_mantissa[OF mw]
  note rd = real_mantissa[OF md]
  consider "ed < ew" | "ed = ew" | "ew < ed" by linarith
  then show ?thesis
  proof cases
    case 1
    then have "2 * Q \<le> P" unfolding P_def Q_def by (rule powr_int_ge2)
    then have "2 ^ 52 * (2 * Q) \<le> 2 ^ 52 * P" by simp
    also have "\<dots> \<le> of_int mw * P" using rw(1) P0 by (intro mult_right_mono) simp_all
    finally have a: "2 ^ 53 * Q \<le> of_int mw * P" by simp
    have "of_int md * Q \<le> (2 ^ 53 - 1) * Q" using rd(2) Q0 by (intro mult_right_mono) simp_all
    also have "\<dots> < 2 ^ 53 * Q" using Q0 by simp
    finally have "of_int md * Q < of_int mw * P" using a by simp
    then show ?thesis using lt unfolding P_def Q_def by simp
  next
    case 2
    then have PQ: "Q = P" by (simp add: P_def Q_def)
    have "of_int mw < (of_int md :: real)" using lt P0 unfolding P_def[symmetric] Q_def[symmetric] PQ
      by simp
    then have "mw < md" by simp
    then have "mw + 1 \<le> md" by simp
    then have "of_int (mw + 1) \<le> (of_int md :: real)" by (simp only: of_int_le_iff)
    then have le: "of_int mw + 1 \<le> (of_int md :: real)" by simp
    have "of_int mw * 2 ^ 53 \<le> of_int md * ((2::real) ^ 53 - 1)"
      using le rd(2) by (simp add: algebra_simps)
    then have "(of_int mw * 2 ^ 53) * P \<le> (of_int md * ((2::real) ^ 53 - 1)) * P"
      using P0 by (intro mult_right_mono) simp_all
    then show ?thesis unfolding P_def[symmetric] Q_def[symmetric] PQ by (simp add: mult_ac)
  next
    case 3
    then have PQ: "2 * P \<le> Q" unfolding P_def Q_def by (rule powr_int_ge2)
    have "of_int mw * P * 2 ^ 53 \<le> (2 ^ 53 - 1) * P * 2 ^ 53"
      using rw(2) P0 by (intro mult_right_mono) simp_all
    also have "\<dots> = 2 ^ 52 * (2 * P) * (2 ^ 53 - 1)" by simp
    also have "\<dots> \<le> 2 ^ 52 * Q * (2 ^ 53 - 1)"
      using PQ by (intro mult_right_mono mult_left_mono) simp_all
    also have "\<dots> \<le> of_int md * Q * (2 ^ 53 - 1)"
      using rd(1) Q0 by (intro mult_right_mono) simp_all
    finally show ?thesis unfolding P_def Q_def .
  qed
qed

text \<open>A positive real that is at most \<open>1 - 1 / 2 ^ 53\<close> is rounded to a number below one.\<close>

lemma binary64_below_one:
  assumes "0 < q" and "q * 2 ^ 53 \<le> 2 ^ 53 - 1"
  shows "binary64 q < 1"
proof -
  define e where "e = \<lfloor>log 2 q\<rfloor>"
  define n where "n = nat (- 1 - e)"
  define u :: real where "u = 2 powr (of_int (e - 52))"
  have u0: "0 < u" by (simp add: u_def)
  have q1: "q < 1" using assms(2) by simp
  then have "log 2 q < 0" using assms(1) by simp
  then have e1: "e \<le> - 1" unfolding e_def by (simp add: floor_le_iff)
  have b: "binary64 q = u * of_int (round_half_even (q / u))"
    using assms(1) by (simp add: binary64_def Let_def e_def u_def)
  have "of_int (e - 52) = - real (53 + n)" using e1 by (simp add: n_def)
  then have u: "u = 1 / 2 ^ (53 + n)"
    unfolding u_def by (simp only: powr_minus powr_realpow) (simp add: divide_inverse)
  have "q / u = (q * 2 ^ 53) * 2 ^ n" by (simp add: u power_add)
  also have "\<dots> \<le> (2 ^ 53 - 1) * 2 ^ n" using assms(2) by (intro mult_right_mono) simp_all
  also have "\<dots> = of_int ((2 ^ 53 - 1) * 2 ^ n)" by simp
  finally have "round_half_even (q / u) \<le> (2 ^ 53 - 1) * 2 ^ n" by (rule round_half_even_le)
  then have "of_int (round_half_even (q / u)) \<le> (of_int ((2 ^ 53 - 1) * 2 ^ n) :: real)"
    by (simp only: of_int_le_iff)
  then have "of_int (round_half_even (q / u)) \<le> ((2 ^ 53 - 1) * 2 ^ n :: real)" by simp
  then have "u * of_int (round_half_even (q / u)) \<le> u * ((2 ^ 53 - 1) * 2 ^ n)"
    using u0 by (intro mult_left_mono) simp_all
  also have "\<dots> = (2 ^ 53 - 1) / 2 ^ 53" by (simp add: u power_add)
  also have "\<dots> < 1" by simp
  finally show ?thesis unfolding b .
qed

text \<open>
  The quotient of two binary64 numbers \<open>0 < w < d\<close> is rounded to a number in \<open>[0, 1)\<close>:
  it never rounds up to one.
\<close>

lemma binary64_quotient_below_one:
  assumes "0 < w" and "binary64 w = w" and "w < binary64 y"
  shows "0 \<le> binary64 (w / binary64 y)" and "binary64 (w / binary64 y) < 1"
proof -
  define d where "d = binary64 y"
  have d0: "0 < d" using assms(1,3) by (simp add: d_def)
  have y0: "0 < y"
  proof (rule ccontr)
    assume "\<not> 0 < y"
    then have "binary64 y \<le> 0" by (intro binary64_nonpos) simp
    then show False using d0 by (simp add: d_def)
  qed
  obtain mw ew where w: "binary64 w = of_int mw * 2 powr (of_int ew)" "2 ^ 52 \<le> mw" "mw < 2 ^ 53"
    using binary64_repr[OF assms(1)] by blast
  obtain md ed where d: "binary64 y = of_int md * 2 powr (of_int ed)" "2 ^ 52 \<le> md" "md < 2 ^ 53"
    using binary64_repr[OF y0] by blast
  have lt: "of_int mw * 2 powr (of_int ew) < of_int md * (2::real) powr (of_int ed)"
    using assms(2,3) w(1) d(1) by simp
  have "w * 2 ^ 53 \<le> d * (2 ^ 53 - 1)"
    using mantissa_gap[OF w(2,3) d(2,3) lt] assms(2) w(1) d(1) by (simp add: d_def)
  then have "w * 2 ^ 53 / d \<le> 2 ^ 53 - 1" using d0 by (simp add: divide_le_eq mult.commute)
  then have q: "w / d * 2 ^ 53 \<le> 2 ^ 53 - 1" by simp
  have q0: "0 < w / d" using assms(1) d0 by simp
  show "0 \<le> binary64 (w / binary64 y)"
    using q0 unfolding d_def by (intro binary64_nonneg) simp
  show "binary64 (w / binary64 y) < 1"
    using binary64_below_one[OF q0 q] by (simp add: d_def)
qed

subsection \<open>The first maximum\<close>

lemma argmax_from_props:
  assumes "\<forall>x\<in>set xs. \<not> is_nan x" and "\<not> is_nan v"
  shows "(argmax_from xs i b v = b \<and> (\<forall>x\<in>set xs. fl_le x v)) \<or>
         (i \<le> argmax_from xs i b v \<and> argmax_from xs i b v - i < length xs \<and>
          fl_lt v (xs ! (argmax_from xs i b v - i)) \<and>
          (\<forall>j<length xs. fl_le (xs ! j) (xs ! (argmax_from xs i b v - i))) \<and>
          (\<forall>j<argmax_from xs i b v - i. fl_lt (xs ! j) (xs ! (argmax_from xs i b v - i))))"
  using assms
proof (induction xs arbitrary: i b v)
  case Nil
  then show ?case by simp
next
  case (Cons x xs)
  have nx: "\<not> is_nan x" and nxs: "\<forall>y\<in>set xs. \<not> is_nan y" using Cons.prems by auto
  show ?case
  proof (cases "fl_le x v")
    case True
    let ?r = "argmax_from xs (Suc i) b v"
    have eq: "argmax_from (x # xs) i b v = ?r" using True Cons.prems by simp
    from Cons.IH[OF nxs Cons.prems(2), of "Suc i" b]
    consider (a) "?r = b" "\<forall>y\<in>set xs. fl_le y v"
      | (b) "Suc i \<le> ?r" "?r - Suc i < length xs" "fl_lt v (xs ! (?r - Suc i))"
            "\<forall>j<length xs. fl_le (xs ! j) (xs ! (?r - Suc i))"
            "\<forall>j<?r - Suc i. fl_lt (xs ! j) (xs ! (?r - Suc i))"
      by blast
    then show ?thesis
    proof cases
      case a
      then show ?thesis using True eq by auto
    next
      case b
      have idx: "?r - i = Suc (?r - Suc i)" using b(1) by simp
      have xlt: "fl_lt x (xs ! (?r - Suc i))"
        using True b(3) by (cases x; cases v; cases "xs ! (?r - Suc i)") auto
      have "\<forall>j<length (x # xs). fl_le ((x # xs) ! j) ((x # xs) ! (?r - i))"
        using b(4) xlt idx by (auto simp: nth_Cons' fl_lt_imp_le)
      moreover have "\<forall>j<?r - i. fl_lt ((x # xs) ! j) ((x # xs) ! (?r - i))"
        using b(5) xlt idx by (auto simp: nth_Cons' )
      ultimately show ?thesis using b idx eq by auto
    qed
  next
    case False
    let ?r = "argmax_from xs (Suc i) i x"
    have eq: "argmax_from (x # xs) i b v = ?r" using False Cons.prems by simp
    have vx: "fl_lt v x" using False nx Cons.prems(2) by (simp add: fl_not_le)
    from Cons.IH[OF nxs nx, of "Suc i" i]
    consider (a) "?r = i" "\<forall>y\<in>set xs. fl_le y x"
      | (b) "Suc i \<le> ?r" "?r - Suc i < length xs" "fl_lt x (xs ! (?r - Suc i))"
            "\<forall>j<length xs. fl_le (xs ! j) (xs ! (?r - Suc i))"
            "\<forall>j<?r - Suc i. fl_lt (xs ! j) (xs ! (?r - Suc i))"
      by blast
    then show ?thesis
    proof cases
      case a
      have "\<forall>j<length (x # xs). fl_le ((x # xs) ! j) x"
        using a(2) nx by (auto simp: nth_Cons' fl_le_refl)
      then show ?thesis using a eq vx by auto
    next
      case b
      have idx: "?r - i = Suc (?r - Suc i)" using b(1) by simp
      have "\<forall>j<length (x # xs). fl_le ((x # xs) ! j) ((x # xs) ! (?r - i))"
        using b(4) b(3) idx by (auto simp: nth_Cons' fl_lt_imp_le)
      moreover have "\<forall>j<?r - i. fl_lt ((x # xs) ! j) ((x # xs) ! (?r - i))"
        using b(5) b(3) idx by (auto simp: nth_Cons')
      moreover have "fl_lt v ((x # xs) ! (?r - i))"
        using vx b(3) idx by (cases v; cases x; cases "xs ! (?r - Suc i)") auto
      ultimately show ?thesis using b idx eq by auto
    qed
  qed
qed

lemma np_argmax_spec:
  assumes "xs \<noteq> []" and "\<forall>x\<in>set xs. \<not> is_nan x"
  shows "\<exists>r. np_argmax xs = Inr r \<and> r < length xs \<and>
           (\<forall>j<length xs. fl_le (xs ! j) (xs ! r)) \<and> (\<forall>j<r. fl_lt (xs ! j) (xs ! r))"
proof -
  obtain x rest where xs: "xs = x # rest" using assms(1) by (cases xs) auto
  let ?r = "argmax_from rest 1 0 x"
  have nx: "\<not> is_nan x" and nr: "\<forall>y\<in>set rest. \<not> is_nan y" using assms(2) xs by auto
  have eq: "np_argmax xs = Inr ?r" by (simp add: np_argmax_def xs)
  from argmax_from_props[OF nr nx, of 1 0]
  consider (a) "?r = 0" "\<forall>y\<in>set rest. fl_le y x"
    | (b) "1 \<le> ?r" "?r - 1 < length rest" "fl_lt x (rest ! (?r - 1))"
          "\<forall>j<length rest. fl_le (rest ! j) (rest ! (?r - 1))"
          "\<forall>j<?r - 1. fl_lt (rest ! j) (rest ! (?r - 1))"
    by auto
  then show ?thesis
  proof cases
    case a
    have "\<forall>j<length xs. fl_le (xs ! j) (xs ! 0)"
      using a(2) nx xs by (auto simp: nth_Cons' fl_le_refl)
    then show ?thesis using a eq xs by auto
  next
    case b
    have idx: "?r = Suc (?r - 1)" using b(1) by simp
    have "\<forall>j<length xs. fl_le (xs ! j) (xs ! ?r)"
      using b(4) b(3) idx xs by (auto simp: nth_Cons' fl_lt_imp_le)
    moreover have "\<forall>j<?r. fl_lt (xs ! j) (xs ! ?r)"
      using b(5) b(3) idx xs by (auto simp: nth_Cons')
    moreover have "?r < length xs" using b(2) idx xs by auto
    ultimately show ?thesis using eq by blast
  qed
qed

lemma np_nanargmax_spec:
  assumes "\<exists>x\<in>set g. \<not> is_nan x"
  shows "\<exists>m. np_nanargmax g = Inr m \<and> m < length g \<and>
           (\<forall>j<length g. \<not> is_nan (g ! j) \<longrightarrow>
              fl_le (g ! j) (if is_nan (g ! m) then NInf else g ! m)) \<and>
           (\<forall>j<m. \<not> is_nan (g ! j) \<longrightarrow>
              fl_lt (g ! j) (if is_nan (g ! m) then NInf else g ! m))"
proof -
  let ?h = "map (\<lambda>x. if is_nan x then NInf else x) g"
  have ne: "g \<noteq> []" using assms by auto
  have notall: "\<not> list_all is_nan g" using assms by (auto simp: list_all_iff)
  have eq: "np_nanargmax g = np_argmax ?h" using notall by (simp add: np_nanargmax_def)
  have hne: "?h \<noteq> []" using ne by simp
  have hnn: "\<forall>x\<in>set ?h. \<not> is_nan x" by auto
  from np_argmax_spec[OF hne hnn] obtain r where r:
    "np_argmax ?h = Inr r" "r < length ?h"
    "\<forall>j<length ?h. fl_le (?h ! j) (?h ! r)" "\<forall>j<r. fl_lt (?h ! j) (?h ! r)"
    by blast
  have rl: "r < length g" using r(2) by simp
  have hr: "?h ! r = (if is_nan (g ! r) then NInf else g ! r)" using rl by simp
  have a: "\<forall>j<length g. \<not> is_nan (g ! j) \<longrightarrow> fl_le (g ! j) (?h ! r)"
  proof (intro allI impI)
    fix j assume j: "j < length g" and n: "\<not> is_nan (g ! j)"
    have "fl_le (?h ! j) (?h ! r)" using r(3) j by simp
    moreover have "?h ! j = g ! j" using j n by simp
    ultimately show "fl_le (g ! j) (?h ! r)" by simp
  qed
  have b: "\<forall>j<r. \<not> is_nan (g ! j) \<longrightarrow> fl_lt (g ! j) (?h ! r)"
  proof (intro allI impI)
    fix j assume j: "j < r" and n: "\<not> is_nan (g ! j)"
    have "fl_lt (?h ! j) (?h ! r)" using r(4) j by simp
    moreover have "?h ! j = g ! j" using j rl n by simp
    ultimately show "fl_lt (g ! j) (?h ! r)" by simp
  qed
  show ?thesis using eq r(1) rl a b hr by (intro exI[of _ r]) simp
qed

lemma np_nanargmax_Inr:
  assumes "np_nanargmax g = Inr m"
  shows "\<exists>x\<in>set g. \<not> is_nan x"
proof (cases "g = []")
  case True
  then show ?thesis using assms by (simp add: np_nanargmax_def np_argmax_def)
next
  case False
  then have "\<not> list_all is_nan g"
    using assms by (auto simp: np_nanargmax_def split: if_splits)
  then show ?thesis by (auto simp: list_all_iff)
qed

lemma np_nanargmax_less:
  assumes "np_nanargmax g = Inr m"
  shows "m < length g"
  using np_nanargmax_spec[OF np_nanargmax_Inr[OF assms]] assms by auto

lemma np_nanargmax_errors:
  "g \<noteq> [] \<Longrightarrow> np_nanargmax g = Inl e \<Longrightarrow> e = ValueError ''All-NaN slice encountered''"
  by (cases g) (auto simp: np_nanargmax_def np_argmax_def split: if_splits)

subsection \<open>Boolean masks and the scan for the first crossing\<close>

lemma mask_select_Nil:
  "length xs = length ms \<Longrightarrow> (mask_select xs ms = []) = (\<forall>i<length ms. \<not> ms ! i)"
proof (induction xs ms rule: list_induct2)
  case Nil
  then show ?case by (simp add: mask_select_def)
next
  case (Cons x xs m ms)
  then show ?case
    by (auto simp: mask_select_def nth_Cons' less_Suc_eq_0_disj)
qed

lemma mask_select_Cons:
  "length xs = length ms \<Longrightarrow> mask_select xs ms = s # rest \<Longrightarrow>
     \<exists>i<length xs. ms ! i \<and> (\<forall>j<i. \<not> ms ! j) \<and> s = xs ! i"
proof (induction xs ms rule: list_induct2)
  case Nil
  then show ?case by (simp add: mask_select_def)
next
  case (Cons x xs m ms)
  show ?case
  proof (cases m)
    case True
    then have "s = x" using Cons.prems by (simp add: mask_select_def)
    then show ?thesis using True by (intro exI[of _ 0]) simp
  next
    case False
    then have "mask_select xs ms = s # rest" using Cons.prems by (simp add: mask_select_def)
    from Cons.IH[OF this] obtain i where i: "i < length xs" "ms ! i" "\<forall>j<i. \<not> ms ! j" "s = xs ! i"
      by blast
    have "\<forall>j<Suc i. \<not> (m # ms) ! j" using i(3) False by (auto simp: nth_Cons' )
    then show ?thesis using i by (intro exI[of _ "Suc i"]) simp
  qed
qed

lemma saturated_times_Nil:
  assumes "length g = length t" and "m \<le> length t"
  shows "(saturated_times t g m thr = []) = (\<forall>i. m \<le> i \<and> i < length t \<longrightarrow> \<not> fl_lt (g ! i) thr)"
proof -
  have sb: "slice_bound (length t) (int m) = m" using assms(2) by (simp add: slice_bound_def)
  have len: "length (drop m t) = length (map (\<lambda>x. fl_lt x thr) (drop m g))" using assms by simp
  have "(saturated_times t g m thr = []) =
        (\<forall>i<length t - m. \<not> fl_lt (g ! (m + i)) thr)"
    unfolding saturated_times_def slice_from_def using sb assms mask_select_Nil[OF len]
    by simp
  also have "\<dots> = (\<forall>i. m \<le> i \<and> i < length t \<longrightarrow> \<not> fl_lt (g ! i) thr)"
  proof
    assume h: "\<forall>i<length t - m. \<not> fl_lt (g ! (m + i)) thr"
    show "\<forall>i. m \<le> i \<and> i < length t \<longrightarrow> \<not> fl_lt (g ! i) thr"
    proof (intro allI impI)
      fix i assume "m \<le> i \<and> i < length t"
      then have "i - m < length t - m" "m + (i - m) = i" by auto
      then show "\<not> fl_lt (g ! i) thr" using h by metis
    qed
  next
    assume h: "\<forall>i. m \<le> i \<and> i < length t \<longrightarrow> \<not> fl_lt (g ! i) thr"
    show "\<forall>i<length t - m. \<not> fl_lt (g ! (m + i)) thr"
      using h by auto
  qed
  finally show ?thesis .
qed

lemma saturated_times_Cons:
  assumes "length g = length t" and "m \<le> length t"
    and "saturated_times t g m thr = s # rest"
  shows "\<exists>i. m \<le> i \<and> i < length t \<and> fl_lt (g ! i) thr \<and>
           (\<forall>j. m \<le> j \<and> j < i \<longrightarrow> \<not> fl_lt (g ! j) thr) \<and> s = t ! i"
proof -
  have sb: "slice_bound (length t) (int m) = m" using assms(2) by (simp add: slice_bound_def)
  have len: "length (drop m t) = length (map (\<lambda>x. fl_lt x thr) (drop m g))" using assms by simp
  have "mask_select (drop m t) (map (\<lambda>x. fl_lt x thr) (drop m g)) = s # rest"
    using assms(3) sb assms(1) unfolding saturated_times_def slice_from_def by simp
  from mask_select_Cons[OF len this] obtain i where i:
    "i < length (drop m t)" "map (\<lambda>x. fl_lt x thr) (drop m g) ! i"
    "\<forall>j<i. \<not> map (\<lambda>x. fl_lt x thr) (drop m g) ! j" "s = drop m t ! i"
    by blast
  have i1: "m + i < length t" using i(1) by simp
  have i2: "fl_lt (g ! (m + i)) thr" using i(2) i(1) assms(1) by simp
  have i3: "\<forall>j. m \<le> j \<and> j < m + i \<longrightarrow> \<not> fl_lt (g ! j) thr"
  proof (intro allI impI)
    fix j assume j: "m \<le> j \<and> j < m + i"
    then have "j - m < i" by auto
    then have "\<not> map (\<lambda>x. fl_lt x thr) (drop m g) ! (j - m)" using i(3) by blast
    moreover have "j - m < length (drop m g)" using j i1 assms(1) by auto
    ultimately show "\<not> fl_lt (g ! j) thr" using j assms(1) by simp
  qed
  have i4: "s = t ! (m + i)" using i(4) i(1) by simp
  show ?thesis using i1 i2 i3 i4 by (intro exI[of _ "m + i"]) simp
qed

subsection \<open>Slices and the growth rate\<close>

lemma slice_bound_le: "slice_bound n i \<le> n"
  by (auto simp: slice_bound_def)

lemma setitem_from_length:
  "setitem_from base i rhs = Inr g \<Longrightarrow> length g = length base"
  using slice_bound_le[of "length base" i]
  by (auto simp: setitem_from_def Let_def split: if_splits)

lemma broadcast2_errors:
  "broadcast2 f xs ys = Inl e \<Longrightarrow> e = ValueError ''operands could not be broadcast together''"
  by (auto simp: broadcast2_def split: if_splits)

lemma growth_rate_regular:
  assumes "length L = length t" and "1 \<le> k" and "k < int (length t)"
  shows "growth_rate rnd t L k =
           Inr (replicate (nat k) NaN @
                map (\<lambda>i. fl_div rnd (fl_sub rnd (L ! i) (L ! (i - nat k)))
                                     (fl_sub rnd (t ! i) (t ! (i - nat k))))
                    [nat k ..< length t])"
proof -
  let ?n = "length t" and ?k = "nat k"
  have k: "?k < ?n" "0 < ?k" using assms by auto
  have sb1: "slice_bound ?n k = ?k" using assms by (simp add: slice_bound_def)
  have sb2: "slice_bound ?n (- k) = ?n - ?k" using assms by (auto simp: slice_bound_def)
  let ?num = "map2 (fl_sub rnd) (drop ?k L) (take (?n - ?k) L)"
  let ?den = "map2 (fl_sub rnd) (drop ?k t) (take (?n - ?k) t)"
  let ?q = "map2 (fl_div rnd) ?num ?den"
  have num: "broadcast2 (fl_sub rnd) (slice_from L k) (slice_to L (- k)) = Inr ?num"
    using assms(1) sb1 sb2 k by (simp add: broadcast2_def slice_from_def slice_to_def)
  have den: "broadcast2 (fl_sub rnd) (slice_from t k) (slice_to t (- k)) = Inr ?den"
    using sb1 sb2 k by (simp add: broadcast2_def slice_from_def slice_to_def)
  have lens: "length ?num = ?n - ?k" "length ?den = ?n - ?k" using assms(1) k by auto
  have q: "broadcast2 (fl_div rnd) ?num ?den = Inr ?q"
    using lens by (simp add: broadcast2_def)
  have lq: "length ?q = ?n - ?k" using lens by simp
  have set: "setitem_from (replicate ?n NaN) k ?q = Inr (replicate ?k NaN @ ?q)"
    using lq sb1 k by (simp add: setitem_from_def Let_def min_def)
  have qeq: "?q = map (\<lambda>i. fl_div rnd (fl_sub rnd (L ! i) (L ! (i - ?k)))
                                     (fl_sub rnd (t ! i) (t ! (i - ?k)))) [?k ..< ?n]"
  proof (rule nth_equalityI)
    show "length ?q = length (map (\<lambda>i. fl_div rnd (fl_sub rnd (L ! i) (L ! (i - ?k)))
                                     (fl_sub rnd (t ! i) (t ! (i - ?k)))) [?k ..< ?n])"
      using lq by simp
  next
    fix i assume "i < length ?q"
    then have i: "i < ?n - ?k" using lq by simp
    then show "?q ! i = map (\<lambda>i. fl_div rnd (fl_sub rnd (L ! i) (L ! (i - ?k)))
                                     (fl_sub rnd (t ! i) (t ! (i - ?k)))) [?k ..< ?n] ! i"
      using assms(1) k by (simp add: add.commute)
  qed
  show ?thesis
    unfolding growth_rate_def using num den q set qeq by simp
qed

lemma growth_rate_regular_nth:
  assumes "length L = length t" and "1 \<le> k" and "k < int (length t)"
    and "growth_rate rnd t L k = Inr g"
  shows "length g = length t"
    and "\<And>i. i < nat k \<Longrightarrow> g ! i = NaN"
    and "\<And>i. nat k \<le> i \<Longrightarrow> i < length t \<Longrightarrow>
           g ! i = fl_div rnd (fl_sub rnd (L ! i) (L ! (i - nat k)))
                              (fl_sub rnd (t ! i) (t ! (i - nat k)))"
proof -
  let ?f = "\<lambda>i. fl_div rnd (fl_sub rnd (L ! i) (L ! (i - nat k)))
                              (fl_sub rnd (t ! i) (t ! (i - nat k)))"
  have g: "g = replicate (nat k) NaN @ map ?f [nat k ..< length t]"
    using growth_rate_regular[OF assms(1-3), of rnd] assms(4) by simp
  have k: "nat k < length t" using assms by auto
  show "length g = length t" using g k by simp
  show "\<And>i. i < nat k \<Longrightarrow> g ! i = NaN" using g by (simp add: nth_append)
  show "\<And>i. nat k \<le> i \<Longrightarrow> i < length t \<Longrightarrow> g ! i = ?f i"
  proof -
    fix i assume i: "nat k \<le> i" "i < length t"
    then have "i - nat k < length t - nat k" by simp
    then have "[nat k ..< length t] ! (i - nat k) = i" using i by simp
    then show "g ! i = ?f i" using g i by (simp add: nth_append)
  qed
qed

lemma growth_rate_length:
  "growth_rate rnd t L k = Inr g \<Longrightarrow> length g = length t"
  by (auto simp: growth_rate_def split: sum.splits dest: setitem_from_length)

lemma growth_rate_errors:
  "growth_rate rnd t L k = Inl e \<Longrightarrow>
     e \<in> {ValueError ''operands could not be broadcast together'',
          ValueError ''could not broadcast input array''}"
  by (auto simp: growth_rate_def setitem_from_def Let_def
      split: sum.splits if_splits dest: broadcast2_errors)

subsection \<open>The detector\<close>

lemma window_index_floor:
  assumes "window_index rnd t window = Inr k" and "1 \<le> k"
  shows "2 \<le> length t \<and>
         (\<exists>q. fl_div rnd window (fl_sub rnd (t ! 1) (t ! 0)) = Fin q \<and> k = \<lfloor>q\<rfloor>)"
proof -
  have len: "2 \<le> length t"
    using assms(1) by (cases "1 < length t") (auto simp: window_index_def getitem_def)
  then have t0: "getitem t 1 = Inr (t ! 1)" "getitem t 0 = Inr (t ! 0)"
    by (auto simp: getitem_def)
  have "py_int (fl_div rnd window (fl_sub rnd (t ! 1) (t ! 0))) = Inr k"
    using assms(1) unfolding window_index_def t0 by simp
  then obtain q where q: "fl_div rnd window (fl_sub rnd (t ! 1) (t ! 0)) = Fin q"
    and kq: "k = (if 0 \<le> q then \<lfloor>q\<rfloor> else \<lceil>q\<rceil>)"
    by (cases "fl_div rnd window (fl_sub rnd (t ! 1) (t ! 0))") (auto simp: py_int_def)
  have "0 \<le> q"
  proof (rule ccontr)
    assume "\<not> 0 \<le> q"
    then have "\<lceil>q\<rceil> \<le> 0" "k = \<lceil>q\<rceil>" using kq by (simp_all add: ceiling_le_iff)
    then show False using assms(2) by simp
  qed
  then have "k = \<lfloor>q\<rfloor>" using kq by simp
  then show ?thesis using len q by blast
qed

lemma window_index_errors:
  "window_index rnd t window = Inl e \<Longrightarrow>
     e \<in> {IndexError, OverflowError, ValueError ''cannot convert float NaN to integer''}"
  by (auto simp: window_index_def getitem_def py_int_def split: if_splits fl.splits)

lemma window_index_length:
  "window_index rnd t window = Inr k \<Longrightarrow> 2 \<le> length t"
  by (cases "1 < length t") (auto simp: window_index_def getitem_def)

lemma detect_arrays_unfold:
  assumes "window_index rnd t window = Inr k"
    and "growth_rate rnd t (map (fl_log rnd) phi2) k = Inr g"
  shows "detect_arrays rnd t phi2 window threshold =
           (case np_nanargmax g of
              Inl e \<Rightarrow> Inl e
            | Inr m \<Rightarrow> (case saturated_times t g m threshold of [] \<Rightarrow> Inr NaN | s # _ \<Rightarrow> Inr s))"
  using assms by (simp add: detect_arrays_def)

lemma detect_saturation_time_arrays:
  assumes "arrays1 ds ''t'' = Some t" and "arrays1 ds ''phi2'' = Some phi2"
  shows "detect_saturation_time rnd ds window threshold =
           detect_arrays rnd t phi2 window threshold"
  using assms by (simp add: detect_saturation_time_def ds_values1_def)

text \<open>
  The peak of the growth rate is the least index that attains the maximum of the defined
  entries. The scan that starts at the index returned by \<open>np_nanargmax\<close> meets the same
  first crossing.
\<close>

lemma peak_and_crossing:
  assumes len: "length g = length t"
    and m: "np_nanargmax g = Inr m"
    and st: "saturated_times t g m thr = s # rest"
  shows "\<exists>ip is. ip \<le> is \<and> is < length t \<and> \<not> is_nan (g ! ip) \<and>
           (\<forall>j<length t. \<not> is_nan (g ! j) \<longrightarrow> fl_le (g ! j) (g ! ip)) \<and>
           (\<forall>j<ip. \<not> is_nan (g ! j) \<longrightarrow> fl_lt (g ! j) (g ! ip)) \<and>
           fl_lt (g ! is) thr \<and> (\<forall>j. ip \<le> j \<and> j < is \<longrightarrow> \<not> fl_lt (g ! j) thr) \<and>
           s = t ! is"
proof -
  have "saturated_times t g m thr \<noteq> []" using st by simp
  then have mle: "m \<le> length t"
    unfolding saturated_times_def mask_select_def slice_from_def slice_bound_def
    by (cases "m \<le> length t") (auto simp: min_def)
  from saturated_times_Cons[OF len mle st] obtain i where i:
    "m \<le> i" "i < length t" "fl_lt (g ! i) thr"
    "\<forall>j. m \<le> j \<and> j < i \<longrightarrow> \<not> fl_lt (g ! j) thr" "s = t ! i"
    by blast
  have gi: "\<not> is_nan (g ! i)" using i(3) fl_lt_not_nan by blast
  have ex: "\<exists>x\<in>set g. \<not> is_nan x" using gi i(2) len by (metis nth_mem)
  from np_nanargmax_spec[OF ex] m obtain
    ml: "m < length g"
    and mx: "\<forall>j<length g. \<not> is_nan (g ! j) \<longrightarrow>
               fl_le (g ! j) (if is_nan (g ! m) then NInf else g ! m)"
    and fs: "\<forall>j<m. \<not> is_nan (g ! j) \<longrightarrow>
               fl_lt (g ! j) (if is_nan (g ! m) then NInf else g ! m)"
    by auto
  show ?thesis
  proof (cases "is_nan (g ! m)")
    case False
    show ?thesis
      using False mx fs i len by (intro exI[of _ m] exI[of _ i]) simp
  next
    case True
    have allN: "\<forall>j<length g. \<not> is_nan (g ! j) \<longrightarrow> g ! j = NInf"
      using mx True fl_le_NInf by auto
    have before: "\<forall>j<m. is_nan (g ! j)"
    proof (intro allI impI)
      fix j assume "j < m"
      show "is_nan (g ! j)"
      proof (rule ccontr)
        assume "\<not> is_nan (g ! j)"
        then have "fl_lt (g ! j) NInf" using fs True \<open>j < m\<close> by simp
        then show False by (cases "g ! j") auto
      qed
    qed
    define ip where "ip = (LEAST j. \<not> is_nan (g ! j))"
    have ipn: "\<not> is_nan (g ! ip)" unfolding ip_def using gi by (rule LeastI)
    have iple: "ip \<le> i" unfolding ip_def using gi by (rule Least_le)
    have ipmin: "\<forall>j<ip. is_nan (g ! j)"
      unfolding ip_def using not_less_Least by blast
    have mip: "m \<le> ip"
    proof (rule ccontr)
      assume "\<not> m \<le> ip"
      then have "ip < m" by simp
      then show False using before ipn by blast
    qed
    have ipl: "ip < length g" using iple i(2) len by simp
    have gip: "g ! ip = NInf" using allN ipl ipn by blast
    have a: "\<forall>j<length t. \<not> is_nan (g ! j) \<longrightarrow> fl_le (g ! j) (g ! ip)"
      using allN gip len by auto
    have b: "\<forall>j<ip. \<not> is_nan (g ! j) \<longrightarrow> fl_lt (g ! j) (g ! ip)"
      using ipmin by blast
    have c: "\<forall>j. ip \<le> j \<and> j < i \<longrightarrow> \<not> fl_lt (g ! j) thr"
      using i(4) mip by auto
    show ?thesis
      using iple i(2) ipn a b i(3) c i(5) by (intro exI[of _ ip] exI[of _ i]) simp
  qed
qed

lemma detect_arrays_errors:
  assumes "detect_arrays rnd t phi2 window threshold = Inl e"
  shows "e \<in> {IndexError, OverflowError,
              ValueError ''cannot convert float NaN to integer'',
              ValueError ''operands could not be broadcast together'',
              ValueError ''could not broadcast input array'',
              ValueError ''All-NaN slice encountered''}"
proof (cases "window_index rnd t window")
  case (Inl e1)
  then have "e = e1" using assms by (simp add: detect_arrays_def)
  then show ?thesis using window_index_errors[OF Inl] by auto
next
  case (Inr k)
  note k = this
  show ?thesis
  proof (cases "growth_rate rnd t (map (fl_log rnd) phi2) k")
    case (Inl e2)
    then have "e = e2" using assms k by (simp add: detect_arrays_def)
    then show ?thesis using growth_rate_errors[OF Inl] by auto
  next
    case (Inr g)
    have "g \<noteq> []" using growth_rate_length[OF Inr] window_index_length[OF k] by auto
    moreover have "np_nanargmax g = Inl e"
      using assms detect_arrays_unfold[OF k Inr, where threshold = threshold]
      by (auto split: sum.splits list.splits)
    ultimately show ?thesis using np_nanargmax_errors by auto
  qed
qed

lemma detect_arrays_threshold:
  "(detect_arrays rnd t phi2 window threshold = Inl e) =
   (detect_arrays rnd t phi2 window threshold' = Inl e)"
  by (auto simp: detect_arrays_def Let_def split: sum.splits list.splits)

text \<open>
  The entries of the growth rate for a finite, strictly increasing time array and a
  strictly positive field, in terms of the operations on values.
\<close>

lemma growth_rate_entries:
  assumes "length phi2 = length t" and "sorted_wrt fl_lt t" and "list_all is_finite t"
    and "list_all positive phi2" and "no_flush rnd"
    and "window_index rnd t window = Inr k" and "1 \<le> k" and "k < int (length t)"
  shows "\<exists>q g m.
           fl_div rnd window (fl_sub rnd (t ! 1) (t ! 0)) = Fin q \<and> k = \<lfloor>q\<rfloor> \<and>
           growth_rate rnd t (map (fl_log rnd) phi2) k = Inr g \<and> length g = length t \<and>
           (\<forall>i. nat k \<le> i \<and> i < length t \<longrightarrow>
              g ! i = fl_div rnd (fl_sub rnd (fl_log rnd (phi2 ! i))
                                             (fl_log rnd (phi2 ! (i - nat k))))
                                 (fl_sub rnd (t ! i) (t ! (i - nat k))) \<and>
              is_finite (g ! i)) \<and>
           (\<forall>i<nat k. is_nan (g ! i) \<and> \<not> fl_lt (g ! i) threshold) \<and>
           np_nanargmax g = Inr m \<and> nat k \<le> m \<and> m < length t"
proof -
  let ?L = "map (fl_log rnd) phi2"
  have lenL: "length ?L = length t" using assms(1) by simp
  obtain q where q: "fl_div rnd window (fl_sub rnd (t ! 1) (t ! 0)) = Fin q" "k = \<lfloor>q\<rfloor>"
    using window_index_floor[OF assms(6,7)] by blast
  obtain g where g: "growth_rate rnd t ?L k = Inr g"
    using growth_rate_regular[OF lenL assms(7,8), of rnd] by blast
  note gn = growth_rate_regular_nth[OF lenL assms(7,8) g]
  have kn: "0 < nat k" "nat k < length t" using assms(7,8) by auto
  have entries: "\<forall>i. nat k \<le> i \<and> i < length t \<longrightarrow>
              g ! i = fl_div rnd (fl_sub rnd (fl_log rnd (phi2 ! i))
                                             (fl_log rnd (phi2 ! (i - nat k))))
                                 (fl_sub rnd (t ! i) (t ! (i - nat k))) \<and>
              is_finite (g ! i)"
  proof (intro allI impI)
    fix i assume i: "nat k \<le> i \<and> i < length t"
    then have lt: "i - nat k < i" "i - nat k < length t" using kn by auto
    have eq: "g ! i = fl_div rnd (fl_sub rnd (fl_log rnd (phi2 ! i))
                                             (fl_log rnd (phi2 ! (i - nat k))))
                                 (fl_sub rnd (t ! i) (t ! (i - nat k)))"
      using gn(3)[of i] i lt assms(1) by simp
    have "positive (phi2 ! i)" "positive (phi2 ! (i - nat k))"
      using assms(4,1) i lt by (simp_all add: list_all_length)
    moreover have "is_finite (t ! i)" "is_finite (t ! (i - nat k))"
      using assms(3) i lt by (simp_all add: list_all_length)
    moreover have "fl_lt (t ! (i - nat k)) (t ! i)"
      using assms(2) i lt by (simp add: sorted_wrt_iff_nth_less)
    ultimately show "g ! i = fl_div rnd (fl_sub rnd (fl_log rnd (phi2 ! i))
                                             (fl_log rnd (phi2 ! (i - nat k))))
                                 (fl_sub rnd (t ! i) (t ! (i - nat k))) \<and>
              is_finite (g ! i)"
      using eq finite_growth_rate_entry[OF assms(5)] by simp
  qed
  have missing: "\<forall>i<nat k. is_nan (g ! i) \<and> \<not> fl_lt (g ! i) threshold"
    using gn(2) by simp
  have fk: "is_finite (g ! nat k)" using entries kn by blast
  then have nk: "\<not> is_nan (g ! nat k)" by (cases "g ! nat k") auto
  have ex: "\<exists>x\<in>set g. \<not> is_nan x" using nk kn gn(1) by (metis nth_mem)
  from np_nanargmax_spec[OF ex] obtain m where m: "np_nanargmax g = Inr m" "m < length g"
    "\<forall>j<length g. \<not> is_nan (g ! j) \<longrightarrow>
       fl_le (g ! j) (if is_nan (g ! m) then NInf else g ! m)"
    by blast
  have "fl_le (g ! nat k) (if is_nan (g ! m) then NInf else g ! m)"
    using m(3) nk kn gn(1) by simp
  then have "\<not> is_nan (g ! m)" using fk by (cases "g ! nat k") (auto split: if_splits)
  then have km: "nat k \<le> m" using gn(2)[of m] by (cases "nat k \<le> m") auto
  have mlt: "m < length t" using m(2) gn(1) by simp
  show ?thesis
    by (rule exI[of _ q], rule exI[of _ g], rule exI[of _ m])
       (intro conjI q g gn(1) entries missing m(1) km mlt)
qed

text \<open>
  A window index of zero: the slice \<^verbatim>\<open>[:-0]\<close> is empty and the finite difference raises.
\<close>

lemma zero_window_index_raises:
  assumes "arrays1 ds ''t'' = Some t" and "arrays1 ds ''phi2'' = Some phi2"
    and "2 \<le> length t"
    and "fl_le (Fin 0) (fl_div rnd window (fl_sub rnd (t ! 1) (t ! 0)))"
    and "fl_lt (fl_div rnd window (fl_sub rnd (t ! 1) (t ! 0))) (Fin 1)"
  shows "window_index rnd t window = Inr 0 \<and>
         detect_saturation_time rnd ds window threshold =
           Inl (ValueError ''operands could not be broadcast together'')"
proof -
  have t0: "getitem t 1 = Inr (t ! 1)" "getitem t 0 = Inr (t ! 0)"
    using assms(3) by (auto simp: getitem_def)
  obtain q where q: "fl_div rnd window (fl_sub rnd (t ! 1) (t ! 0)) = Fin q" "0 \<le> q" "q < 1"
    using assms(4,5) by (cases "fl_div rnd window (fl_sub rnd (t ! 1) (t ! 0))") auto
  have "\<lfloor>q\<rfloor> = 0" using q(2,3) by (simp add: floor_unique)
  then have "py_int (fl_div rnd window (fl_sub rnd (t ! 1) (t ! 0))) = Inr 0"
    using q by (simp add: py_int_def)
  then have idx: "window_index rnd t window = Inr 0"
    unfolding window_index_def t0 by simp
  have den: "broadcast2 (fl_sub rnd) (slice_from t 0) (slice_to t (- 0)) =
               Inl (ValueError ''operands could not be broadcast together'')"
    using assms(3) by (auto simp: broadcast2_def slice_from_def slice_to_def slice_bound_def)
  have "growth_rate rnd t (map (fl_log rnd) phi2) 0 =
          Inl (ValueError ''operands could not be broadcast together'')"
    unfolding growth_rate_def den
    by (simp add: broadcast2_def split: sum.splits)
  then have "detect_arrays rnd t phi2 window threshold =
               Inl (ValueError ''operands could not be broadcast together'')"
    using idx by (simp add: detect_arrays_def)
  then show ?thesis using idx detect_saturation_time_arrays[OF assms(1,2)] by simp
qed

subsection \<open>The detector on the concrete datasets\<close>

lemmas detector_defs =
  detect_saturation_time_def ds_values1_def detect_arrays_def window_index_def getitem_def
  py_int_def growth_rate_def broadcast2_def slice_from_def slice_to_def slice_bound_def
  setitem_from_def np_nanargmax_def np_argmax_def saturated_times_def mask_select_def
  fl_sub_def exact_def Let_def

lemma w1_idx: "window_index exact w1_t (Fin 1) = Inr 1"
  by (simp add: w1_t_def window_index_def getitem_def py_int_def fl_sub_def exact_def)

lemma w1_idx_binary64: "window_index binary64 w1_t (Fin 1) = Inr 1"
  by (simp add: w1_t_def window_index_def getitem_def py_int_def fl_sub_def binary64_one)

lemma w1_g: "growth_rate exact w1_t (map (fl_log exact) w1_phi2) 1 = Inr [NaN, Fin 1, Fin 0, Fin 0]"
  by (simp add: w1_t_def w1_phi2_def growth_rate_def broadcast2_def slice_from_def slice_to_def
      slice_bound_def setitem_from_def fl_sub_def exact_def)

lemma w1_det: "detect_saturation_time exact ds_w1 (Fin 1) (Fin (1/10)) = Inr (Fin 2)"
proof -
  have "detect_arrays exact w1_t w1_phi2 (Fin 1) (Fin (1/10)) = Inr (Fin 2)"
    unfolding detect_arrays_unfold[OF w1_idx w1_g]
    by (simp add: w1_t_def np_nanargmax_def np_argmax_def saturated_times_def mask_select_def
        slice_from_def slice_bound_def)
  then show ?thesis
    by (simp add: detect_saturation_time_def ds_w1_def ds_values1_def)
qed

lemma grow_g: "growth_rate exact w1_t (map (fl_log exact) grow_phi2) 1 =
                 Inr [NaN, Fin 1, Fin 1, Fin 1]"
  by (simp add: w1_t_def grow_phi2_def growth_rate_def broadcast2_def slice_from_def
      slice_to_def slice_bound_def setitem_from_def fl_sub_def exact_def)

lemma grow_peak: "np_nanargmax [NaN, Fin 1, Fin 1, Fin 1] = Inr 1"
  by (simp add: np_nanargmax_def np_argmax_def)

subsection \<open>The scenario\<close>

lemma scenario_idx: "window_index exact scenario_time (Fin 5) = Inr 5"
  by (simp add: scenario_time_def window_index_def getitem_def py_int_def fl_sub_def exact_def)

lemma scenario_growth_rate:
  assumes "growth_rate exact scenario_time (map (fl_log exact) scenario_field) 5 = Inr g"
    and "5 \<le> i" and "i < 50"
  shows "g ! i = Fin ((real (min i 25) - real (min (i - 5) 25)) / 10)"
proof -
  have len: "length (map (fl_log exact) scenario_field) = length scenario_time"
    by (simp add: scenario_time_def scenario_field_def)
  have k: "(1::int) \<le> 5" "(5::int) < int (length scenario_time)"
    by (simp_all add: scenario_time_def)
  have i': "nat 5 \<le> i" "i < length scenario_time" using assms(2,3) by (simp_all add: scenario_time_def)
  have "real i + - real (i - 5) = 5" using assms(2) by simp
  then show ?thesis
    using growth_rate_regular_nth(3)[OF len k assms(1) i'] assms(2,3)
    by (simp add: scenario_time_def scenario_field_def fl_sub_def exact_def field_simps)
qed

lemma scenario_values:
  fixes i :: nat
  shows "5 \<le> i \<Longrightarrow> (real (min i 25) - real (min (i - 5) 25)) / 10 \<le> 1 / 2"
    and "5 \<le> i \<Longrightarrow> i < 30 \<Longrightarrow> 1 / 10 \<le> (real (min i 25) - real (min (i - 5) 25)) / 10"
  by (auto simp: min_def)

lemma scenario_exact_rate:
  fixes i :: nat
  shows "26 \<le> i \<Longrightarrow> real (min i 25) / 10 - real (min (i - 5) 25) / 10 \<le> 4 / 10"
    and "5 \<le> i \<Longrightarrow> i \<le> 28 \<Longrightarrow>
           2 / 10 \<le> real (min i 25) / 10 - real (min (i - 5) 25) / 10"
proof -
  assume i: "26 \<le> i"
  then have a: "min i 25 = 25" by simp
  have "21 \<le> min (i - 5) 25" using i by simp
  then have "21 \<le> real (min (i - 5) 25)" by (metis of_nat_le_iff of_nat_numeral)
  then show "real (min i 25) / 10 - real (min (i - 5) 25) / 10 \<le> 4 / 10"
    unfolding a by simp
next
  assume i: "5 \<le> i" "i \<le> 28"
  have "min (i - 5) 25 + 2 \<le> min i 25" using i by (cases "i \<le> 25") auto
  then have "real (min (i - 5) 25 + 2) \<le> real (min i 25)" by (rule iffD2[OF of_nat_le_iff])
  then have "real (min (i - 5) 25) + 2 \<le> real (min i 25)" by simp
  then show "2 / 10 \<le> real (min i 25) / 10 - real (min (i - 5) 25) / 10" by linarith
qed

lemma rounded_rate_bound:
  assumes r: "rel_err rnd (1 / 1000)"
    and l1: "p / 2 - 1 / 1000 \<le> l1" "l1 \<le> p / 2 + 1 / 1000"
    and l2: "q / 2 - 1 / 1000 \<le> l2" "l2 \<le> q / 2 + 1 / 1000"
    and pq: "0 \<le> q" "q \<le> p" "p \<le> 25" "p - q \<le> 5"
  shows "(p / 10 - q / 10) - 1 / 25 \<le> rnd (rnd (rnd l1 + - rnd l2) / 5)"
    and "rnd (rnd (rnd l1 + - rnd l2) / 5) \<le> (p / 10 - q / 10) + 1 / 25"
proof -
  define a where "a = rnd l1"
  define b where "b = rnd l2"
  define c where "c = rnd (a + - b)"
  define d where "d = rnd (c / 5)"
  have d0: "(0::real) \<le> 1 / 1000" by simp
  have b1: "- 13 \<le> l1" "l1 \<le> 13" using l1 pq by linarith+
  have b2: "- 13 \<le> l2" "l2 \<le> 13" using l2 pq by linarith+
  note ra = rel_err_bound[OF r d0 b1, folded a_def]
  note rb = rel_err_bound[OF r d0 b2, folded b_def]
  have ea: "p / 2 - 14 / 1000 \<le> a" "a \<le> p / 2 + 14 / 1000" using ra l1 by linarith+
  have eb: "q / 2 - 14 / 1000 \<le> b" "b \<le> q / 2 + 14 / 1000" using rb l2 by linarith+
  have ab: "(p / 2 - q / 2) - 28 / 1000 \<le> a + - b" "a + - b \<le> (p / 2 - q / 2) + 28 / 1000"
    using ea eb by linarith+
  have abb: "- 3 \<le> a + - b" "a + - b \<le> 3" using ab pq by linarith+
  note rc = rel_err_bound[OF r d0 abb, folded c_def]
  have ec: "(p / 2 - q / 2) - 31 / 1000 \<le> c" "c \<le> (p / 2 - q / 2) + 31 / 1000"
    using rc ab by linarith+
  have c5: "- 1 \<le> c / 5" "c / 5 \<le> 1" using ec pq by linarith+
  note rd = rel_err_bound[OF r d0 c5, folded d_def]
  have lower: "(p / 10 - q / 10) - 1 / 25 \<le> d" using rd(1) ec(1) by linarith
  have upper: "d \<le> (p / 10 - q / 10) + 1 / 25" using rd(2) ec(2) by linarith
  show "(p / 10 - q / 10) - 1 / 25 \<le> rnd (rnd (rnd l1 + - rnd l2) / 5)"
    using lower unfolding d_def c_def a_def b_def .
  show "rnd (rnd (rnd l1 + - rnd l2) / 5) \<le> (p / 10 - q / 10) + 1 / 25"
    using upper unfolding d_def c_def a_def b_def .
qed

lemma scenario_idx_rounded:
  assumes "exact_on_ints rnd 50"
  shows "window_index rnd scenario_time (Fin 5) = Inr 5"
proof -
  have r1: "rnd 1 = 1" using exact_on_ints_nat[OF assms, of 1] by simp
  have r5: "rnd 5 = 5" using exact_on_ints_nat[OF assms, of 5] by simp
  show ?thesis
    by (simp add: scenario_time_def window_index_def getitem_def py_int_def fl_sub_def r1 r5)
qed

lemma scenario_growth_rate_rounded:
  assumes "exact_on_ints rnd 50" and "\<forall>i\<le>25. 0 < y i"
    and "growth_rate rnd scenario_time
           (map (fl_log rnd) (map (\<lambda>i. Fin (y (min i 25))) [0..<50])) 5 = Inr g"
    and "5 \<le> i" and "i < 50"
  shows "g ! i = Fin (rnd (rnd (rnd (ln (y (min i 25))) + - rnd (ln (y (min (i - 5) 25)))) / 5))"
proof -
  let ?L = "map (fl_log rnd) (map (\<lambda>i. Fin (y (min i 25))) [0..<50])"
  have len: "length ?L = length scenario_time" by (simp add: scenario_time_def)
  have k: "(1::int) \<le> 5" "(5::int) < int (length scenario_time)"
    by (simp_all add: scenario_time_def)
  have i': "nat 5 \<le> i" "i < length scenario_time"
    using assms(4,5) by (simp_all add: scenario_time_def)
  have r5: "rnd 5 = 5" using exact_on_ints_nat[OF assms(1), of 5] by simp
  have d: "real i + - real (i - 5) = 5" using assms(4) by simp
  have y1: "0 < y (min i 25)" and y2: "0 < y (min (i - 5) 25)" using assms(2) by simp_all
  have "g ! i = fl_div rnd (fl_sub rnd (?L ! i) (?L ! (i - nat 5)))
                          (fl_sub rnd (scenario_time ! i) (scenario_time ! (i - nat 5)))"
    by (rule growth_rate_regular_nth(3)[OF len k assms(3) i'])
  then show ?thesis
    using assms(4,5) y1 y2 d r5 by (simp add: scenario_time_def fl_sub_def)
qed

subsection \<open>The label slice and the renderers\<close>

text \<open>
  On a sorted index the prefix found by the search is exactly the set of positions that
  satisfy a predicate which is closed towards smaller times.
\<close>

lemma takeWhile_position:
  assumes "\<And>i j. i \<le> j \<Longrightarrow> j < length t \<Longrightarrow> P (t ! j) \<Longrightarrow> P (t ! i)"
    and "i < length t"
  shows "(i < length (takeWhile P t)) = P (t ! i)"
proof
  assume "i < length (takeWhile P t)"
  then have "takeWhile P t ! i \<in> set (takeWhile P t)" by simp
  moreover have "takeWhile P t ! i = t ! i"
    using \<open>i < length (takeWhile P t)\<close> by (rule takeWhile_nth)
  ultimately show "P (t ! i)" using set_takeWhileD by metis
next
  assume p: "P (t ! i)"
  show "i < length (takeWhile P t)"
  proof (rule ccontr)
    assume "\<not> i < length (takeWhile P t)"
    then have le: "length (takeWhile P t) \<le> i" by simp
    then have "length (takeWhile P t) < length t" using assms(2) by simp
    then have "\<not> P (t ! length (takeWhile P t))" by (rule nth_length_takeWhile)
    then show False using assms(1)[OF le assms(2) p] by simp
  qed
qed

lemma filter_upt_interval:
  assumes "e \<le> n"
  shows "filter (\<lambda>i. s \<le> i \<and> i < e) [0..<n] = [s..<e]"
proof (rule sorted_distinct_set_unique)
  show "sorted (filter (\<lambda>i. s \<le> i \<and> i < e) [0..<n])" by (rule sorted_wrt_filter) simp
  show "distinct (filter (\<lambda>i. s \<le> i \<and> i < e) [0..<n])" by simp
  show "sorted [s..<e]" by simp
  show "distinct [s..<e]" by simp
  show "set (filter (\<lambda>i. s \<le> i \<and> i < e) [0..<n]) = set [s..<e]" using assms by auto
qed

lemma take_drop_map_nth:
  assumes "e \<le> length rows"
  shows "take (e - s) (drop s rows) = map ((!) rows) [s..<e]"
proof (rule nth_equalityI)
  show "length (take (e - s) (drop s rows)) = length (map ((!) rows) [s..<e])"
    using assms by simp
next
  fix i assume "i < length (take (e - s) (drop s rows))"
  then have i: "i < e - s" by simp
  then show "take (e - s) (drop s rows) ! i = map ((!) rows) [s..<e] ! i"
    using assms by simp
qed

lemma sel_t_slice_closed:
  assumes "sorted_wrt fl_lt t" and "list_all is_finite t" and "length rows = length t"
    and "is_finite lo" and "is_finite hi"
  shows "sel_t_slice t rows lo hi =
           map ((!) rows) (filter (\<lambda>i. fl_le lo (t ! i) \<and> fl_le (t ! i) hi) [0..<length t])"
proof -
  let ?P = "\<lambda>x. fl_lt x lo" and ?Q = "\<lambda>x. fl_le x hi"
  let ?s = "length (takeWhile ?P t)" and ?e = "length (takeWhile ?Q t)"
  have mono: "\<And>i j. i \<le> j \<Longrightarrow> j < length t \<Longrightarrow> fl_le (t ! i) (t ! j)"
  proof -
    fix i j assume ij: "i \<le> j" "j < length t"
    show "fl_le (t ! i) (t ! j)"
    proof (cases "i = j")
      case True
      have "is_finite (t ! j)" using assms(2) ij(2) by (simp add: list_all_length)
      then show ?thesis using True by (simp add: fl_le_refl is_finite_not_nan)
    next
      case False
      then have "fl_lt (t ! i) (t ! j)"
        using assms(1) ij by (simp add: sorted_wrt_iff_nth_less)
      then show ?thesis by (rule fl_lt_imp_le)
    qed
  qed
  have P: "\<And>i. i < length t \<Longrightarrow> (i < ?s) = fl_lt (t ! i) lo"
    by (rule takeWhile_position) (auto intro: fl_le_lt_trans mono)
  have Q: "\<And>i. i < length t \<Longrightarrow> (i < ?e) = fl_le (t ! i) hi"
    by (rule takeWhile_position) (auto intro: fl_le_trans mono)
  have e: "?e \<le> length t" by (rule length_takeWhile_le)
  have "filter (\<lambda>i. fl_le lo (t ! i) \<and> fl_le (t ! i) hi) [0..<length t] =
        filter (\<lambda>i. ?s \<le> i \<and> i < ?e) [0..<length t]"
  proof (rule filter_cong[OF refl])
    fix i assume "i \<in> set [0..<length t]"
    then have i: "i < length t" by simp
    have "is_finite (t ! i)" using assms(2) i by (simp add: list_all_length)
    then have "fl_le lo (t ! i) = (\<not> fl_lt (t ! i) lo)"
      using assms(4) by (simp add: fl_le_iff_not_lt is_finite_not_nan)
    then show "(fl_le lo (t ! i) \<and> fl_le (t ! i) hi) = (?s \<le> i \<and> i < ?e)"
      using P[OF i] Q[OF i] by auto
  qed
  also have "\<dots> = [?s..<?e]" using e by (rule filter_upt_interval)
  finally have f: "filter (\<lambda>i. fl_le lo (t ! i) \<and> fl_le (t ! i) hi) [0..<length t] = [?s..<?e]" .
  have "sel_t_slice t rows lo hi = take (?e - ?s) (drop ?s rows)"
    by (simp add: sel_t_slice_def Let_def)
  also have "\<dots> = map ((!) rows) [?s..<?e]"
    using e assms(3) by (intro take_drop_map_nth) simp
  finally show ?thesis using f by simp
qed

lemma averaged_lines_enabled:
  assumes "arrays1 ds ''t'' = Some t"
    and "\<forall>d\<in>set dl. arrays2 ds d \<noteq> None \<and> labels d \<noteq> None"
  shows "averaged_lines ds theta lo hi dl =
           Inr (map (\<lambda>d. Plot theta (MeanOverT (sel_t_slice t (the (arrays2 ds d)) lo hi))
                             (the (labels d))) dl)"
  using assms(2)
proof (induction dl)
  case Nil
  then show ?case by simp
next
  case (Cons d dl)
  then show ?case
    using assms(1) by (auto simp: ds_values2_def ds_values1_def get_label_def)
qed

lemma labels_all_diags: "d \<in> set all_diags \<Longrightarrow> labels d \<noteq> None"
  by (auto simp: all_diags_def labels_def)

lemma averaging_window_default:
  assumes "arrays1 ds ''t'' = Some t" and "t \<noteq> []"
  shows "averaging_window rnd ds window None =
           Inr (fl_sub rnd (last t) window, fl_add rnd (fl_sub rnd (last t) window) window)"
  using assms by (simp add: averaging_window_def ds_values1_def py_last_def)

lemma plot_transfer_by_theta_averaged_run:
  assumes "averaging_window rnd ds window tstart = Inr (lo, hi)"
    and "ds_values1 ds ''theta'' = Inr theta"
    and "averaged_lines ds theta lo hi (filter (ds_contains ds) all_diags) = Inr lines"
  shows "plot_transfer_by_theta_averaged rnd ds window tstart output_dir None fs =
           Inr (PathJoin output_dir ''transfer_by_theta_averaged.png'',
                fs(PathJoin output_dir ''transfer_by_theta_averaged.png'' \<mapsto>
                   \<lparr>artists = lines, title_interval = Some (lo, hi)\<rparr>))"
  using assms by (simp add: plot_transfer_by_theta_averaged_def Let_def)

lemma transfer_without_diagnostics:
  "plot_transfer_by_theta ds_no_diags ''outputs'' None Map.empty =
     Inr (PathJoin ''outputs'' ''transfer_by_theta.png'',
          [PathJoin ''outputs'' ''transfer_by_theta.png'' \<mapsto>
             \<lparr>artists = [], title_interval = None\<rparr>])"
  by (simp add: plot_transfer_by_theta_def ds_no_diags_def ds_contains_def all_diags_def
      ds_values1_def Let_def)

text \<open>
  The interval of the averaged renderer with \<open>tstart = None\<close>, for a finite and strictly
  increasing time index and a finite window: \<open>lo = t[-1] - window\<close> and \<open>hi = lo + window\<close>,
  both as the float operations give them. Every enabled diagnostic is averaged over
  exactly the rows of the samples with \<open>lo \<le> t\<^sub>i \<le> hi\<close>, both ends included. Whenever the
  sum \<open>lo + window\<close> gives \<open>t[-1]\<close> back, as it does for a window of 10 and a series ending
  at 100 (\<open>[90, 100]\<close>), these are all the samples from \<open>t[-1] - window\<close> on, the last one
  included.
\<close>

lemma default_averaging_interval:
  assumes "arrays1 ds ''t'' = Some t" and "t \<noteq> []"
    and "sorted_wrt fl_lt t" and "list_all is_finite t" and "is_finite window"
    and "arrays1 ds ''theta'' = Some theta"
    and "\<forall>d\<in>set all_diags. arrays1 ds d = None"
    and "\<forall>d rows. arrays2 ds d = Some rows \<longrightarrow> length rows = length t"
  shows "\<exists>lo hi lines.
           lo = fl_sub rnd (last t) window \<and> hi = fl_add rnd lo window \<and>
           plot_transfer_by_theta_averaged rnd ds window None output_dir None fs =
             Inr (PathJoin output_dir ''transfer_by_theta_averaged.png'',
                  fs(PathJoin output_dir ''transfer_by_theta_averaged.png'' \<mapsto>
                     \<lparr>artists = lines, title_interval = Some (lo, hi)\<rparr>)) \<and>
           length lines = length (filter (ds_contains ds) all_diags) \<and>
           (\<forall>j<length lines. \<exists>rows l.
              arrays2 ds (filter (ds_contains ds) all_diags ! j) = Some rows \<and>
              labels (filter (ds_contains ds) all_diags ! j) = Some l \<and>
              lines ! j =
                Plot theta
                  (MeanOverT (map ((!) rows)
                     (filter (\<lambda>i. fl_le lo (t ! i) \<and> fl_le (t ! i) hi) [0..<length t]))) l) \<and>
           (hi = last t \<longrightarrow>
              (\<forall>i<length t. (fl_le lo (t ! i) \<and> fl_le (t ! i) hi) = fl_le lo (t ! i)))"
proof -
  define lo where "lo = fl_sub rnd (last t) window"
  define hi where "hi = fl_add rnd lo window"
  define en where "en = filter (ds_contains ds) all_diags"
  define lines where "lines = map (\<lambda>d. Plot theta
      (MeanOverT (sel_t_slice t (the (arrays2 ds d)) lo hi)) (the (labels d))) en"
  have lastfin: "is_finite (last t)"
    using assms(2,4) by (simp add: list_all_iff)
  have lofin: "is_finite lo" unfolding lo_def using lastfin assms(5) by (rule fl_sub_finite)
  have hifin: "is_finite hi" unfolding hi_def using lofin assms(5) by (rule fl_add_finite)
  have w: "averaging_window rnd ds window None = Inr (lo, hi)"
    using averaging_window_default[OF assms(1,2)] by (simp add: lo_def hi_def)
  have en2: "\<forall>d\<in>set en. arrays2 ds d \<noteq> None \<and> labels d \<noteq> None"
    using assms(7) labels_all_diags by (auto simp: en_def ds_contains_def)
  have al: "averaged_lines ds theta lo hi en = Inr lines"
    unfolding lines_def by (rule averaged_lines_enabled[OF assms(1) en2])
  have th: "ds_values1 ds ''theta'' = Inr theta" using assms(6) by (simp add: ds_values1_def)
  have run: "plot_transfer_by_theta_averaged rnd ds window None output_dir None fs =
             Inr (PathJoin output_dir ''transfer_by_theta_averaged.png'',
                  fs(PathJoin output_dir ''transfer_by_theta_averaged.png'' \<mapsto>
                     \<lparr>artists = lines, title_interval = Some (lo, hi)\<rparr>))"
    by (rule plot_transfer_by_theta_averaged_run[OF w th al[unfolded en_def]])
  have len: "length lines = length en" by (simp add: lines_def)
  have each: "\<forall>j<length lines. \<exists>rows l.
              arrays2 ds (en ! j) = Some rows \<and> labels (en ! j) = Some l \<and>
              lines ! j =
                Plot theta
                  (MeanOverT (map ((!) rows)
                     (filter (\<lambda>i. fl_le lo (t ! i) \<and> fl_le (t ! i) hi) [0..<length t]))) l"
  proof (intro allI impI)
    fix j assume j: "j < length lines"
    then have mem: "en ! j \<in> set en" using len by simp
    then obtain rows l where rl: "arrays2 ds (en ! j) = Some rows" "labels (en ! j) = Some l"
      using en2 by auto
    have "length rows = length t" using assms(8) rl(1) by blast
    then have "sel_t_slice t rows lo hi =
        map ((!) rows) (filter (\<lambda>i. fl_le lo (t ! i) \<and> fl_le (t ! i) hi) [0..<length t])"
      using sel_t_slice_closed[OF assms(3,4) _ lofin hifin] by blast
    then have "lines ! j = Plot theta
                  (MeanOverT (map ((!) rows)
                     (filter (\<lambda>i. fl_le lo (t ! i) \<and> fl_le (t ! i) hi) [0..<length t]))) l"
      using j len rl by (simp add: lines_def)
    then show "\<exists>rows l.
              arrays2 ds (en ! j) = Some rows \<and> labels (en ! j) = Some l \<and>
              lines ! j =
                Plot theta
                  (MeanOverT (map ((!) rows)
                     (filter (\<lambda>i. fl_le lo (t ! i) \<and> fl_le (t ! i) hi) [0..<length t]))) l"
      using rl by blast
  qed
  have upper: "hi = last t \<longrightarrow>
              (\<forall>i<length t. (fl_le lo (t ! i) \<and> fl_le (t ! i) hi) = fl_le lo (t ! i))"
  proof (intro impI allI)
    fix i assume h: "hi = last t" and i: "i < length t"
    have n2: "last t = t ! (length t - 1)" using assms(2) by (simp add: last_conv_nth)
    have "fl_le (t ! i) (t ! (length t - 1))"
    proof (cases "i = length t - 1")
      case True
      have "is_finite (t ! i)" using assms(4) i by (simp add: list_all_length)
      then show ?thesis using True by (simp add: fl_le_refl is_finite_not_nan)
    next
      case False
      then have "fl_lt (t ! i) (t ! (length t - 1))"
        using assms(3) i by (simp add: sorted_wrt_iff_nth_less)
      then show ?thesis by (rule fl_lt_imp_le)
    qed
    then show "(fl_le lo (t ! i) \<and> fl_le (t ! i) hi) = fl_le lo (t ! i)"
      using h n2 by simp
  qed
  show ?thesis
    apply (rule exI[of _ lo], rule exI[of _ hi], rule exI[of _ lines])
    using lo_def hi_def run len each upper unfolding en_def by blast
qed

lemma default_averaging_interval_hundred:
  "(\<exists>lo hi lines.
      lo = fl_sub binary64 (last hundred_t) (Fin 10) \<and> hi = fl_add binary64 lo (Fin 10) \<and>
      plot_transfer_by_theta_averaged binary64 ds_hundred (Fin 10) None ''outputs'' None
        Map.empty =
        Inr (PathJoin ''outputs'' ''transfer_by_theta_averaged.png'',
             [PathJoin ''outputs'' ''transfer_by_theta_averaged.png'' \<mapsto>
                \<lparr>artists = lines, title_interval = Some (lo, hi)\<rparr>]) \<and>
      length lines = length (filter (ds_contains ds_hundred) all_diags) \<and>
      (\<forall>j<length lines. \<exists>rows l.
         arrays2 ds_hundred (filter (ds_contains ds_hundred) all_diags ! j) = Some rows \<and>
         labels (filter (ds_contains ds_hundred) all_diags ! j) = Some l \<and>
         lines ! j =
           Plot [Fin 0]
             (MeanOverT (map ((!) rows)
                (filter (\<lambda>i. fl_le lo (hundred_t ! i) \<and> fl_le (hundred_t ! i) hi)
                   [0..<length hundred_t]))) l) \<and>
      (hi = last hundred_t \<longrightarrow>
         (\<forall>i<length hundred_t.
            (fl_le lo (hundred_t ! i) \<and> fl_le (hundred_t ! i) hi) = fl_le lo (hundred_t ! i)))) \<and>
   fl_sub binary64 (last hundred_t) (Fin 10) = Fin 90 \<and>
   fl_add binary64 (Fin 90) (Fin 10) = Fin 100"
proof -
  have a: "arrays1 ds_hundred ''t'' = Some hundred_t" by (simp add: ds_hundred_def)
  have b: "hundred_t \<noteq> []" by (simp add: hundred_t_def)
  have c: "sorted_wrt fl_lt hundred_t" by (simp add: hundred_t_def)
  have d: "list_all is_finite hundred_t" by (simp add: hundred_t_def)
  have e: "is_finite (Fin 10)" by simp
  have f: "arrays1 ds_hundred ''theta'' = Some [Fin 0]" by (simp add: ds_hundred_def)
  have g: "\<forall>d\<in>set all_diags. arrays1 ds_hundred d = None"
    by (simp add: ds_hundred_def all_diags_def)
  have h: "\<forall>d rows. arrays2 ds_hundred d = Some rows \<longrightarrow> length rows = length hundred_t"
    by (auto simp: ds_hundred_def hundred_t_def split: if_splits)
  have lo: "fl_sub binary64 (last hundred_t) (Fin 10) = Fin 90"
    using b64_90 by (simp add: hundred_t_def fl_sub_def)
  have hi: "fl_add binary64 (Fin 90) (Fin 10) = Fin 100"
    using b64_100 by simp
  show ?thesis
    by (intro conjI default_averaging_interval[OF a b c d e f g h] lo hi)
qed

section \<open>The claims about the saturation detector\<close>

text \<open>
  Claim C1. The time array is strictly increasing with at least two samples, the field has
  the same length, and the window index \<open>k\<close> satisfies \<open>1 \<le> k < N\<close>. If the detector
  returns a value that is not NaN, that value is \<open>t ! is\<close>, where \<open>ip\<close> is the least index
  attaining the maximum over the defined growth-rate entries (all of them at indices
  \<open>\<ge> k\<close>) and \<open>is\<close> is the least index \<open>\<ge> ip\<close> whose growth rate is below the threshold.
  The result is an element of the time array and is at least \<open>t ! ip\<close>. The statement
  holds for every rounding and needs no assumption on the sign of the field.
\<close>

theorem saturation_time_is_first_crossing_after_peak:
  assumes "arrays1 ds ''t'' = Some t" and "arrays1 ds ''phi2'' = Some phi2"
    and "length phi2 = length t" and "sorted_wrt fl_lt t"
    and "window_index rnd t window = Inr k" and "1 \<le> k" and "k < int (length t)"
    and "detect_saturation_time rnd ds window threshold = Inr v" and "\<not> is_nan v"
  shows "\<exists>g ip is.
           growth_rate rnd t (map (fl_log rnd) phi2) k = Inr g \<and>
           nat k \<le> ip \<and> ip \<le> is \<and> is < length t \<and> \<not> is_nan (g ! ip) \<and>
           (\<forall>j<length t. \<not> is_nan (g ! j) \<longrightarrow> fl_le (g ! j) (g ! ip)) \<and>
           (\<forall>j<ip. \<not> is_nan (g ! j) \<longrightarrow> fl_lt (g ! j) (g ! ip)) \<and>
           fl_lt (g ! is) threshold \<and>
           (\<forall>j. ip \<le> j \<and> j < is \<longrightarrow> \<not> fl_lt (g ! j) threshold) \<and>
           v = t ! is \<and> fl_le (t ! ip) v"
proof -
  let ?L = "map (fl_log rnd) phi2"
  have lenL: "length ?L = length t" using assms(3) by simp
  obtain g where g: "growth_rate rnd t ?L k = Inr g"
    using growth_rate_regular[OF lenL assms(6,7), of rnd] by blast
  note gn = growth_rate_regular_nth[OF lenL assms(6,7) g]
  have n2: "2 \<le> length t" using assms(6,7) by simp
  have det: "detect_arrays rnd t phi2 window threshold = Inr v"
    using assms(8) detect_saturation_time_arrays[OF assms(1,2)] by simp
  note unf = detect_arrays_unfold[OF assms(5) g, where threshold = threshold]
  obtain m where m: "np_nanargmax g = Inr m"
    using det unf by (cases "np_nanargmax g") auto
  obtain s rest where st: "saturated_times t g m threshold = s # rest" and sv: "s = v"
    using det unf m assms(9) by (cases "saturated_times t g m threshold") auto
  from peak_and_crossing[OF gn(1) m st] obtain ip i where p:
    "ip \<le> i" "i < length t" "\<not> is_nan (g ! ip)"
    "\<forall>j<length t. \<not> is_nan (g ! j) \<longrightarrow> fl_le (g ! j) (g ! ip)"
    "\<forall>j<ip. \<not> is_nan (g ! j) \<longrightarrow> fl_lt (g ! j) (g ! ip)"
    "fl_lt (g ! i) threshold" "\<forall>j. ip \<le> j \<and> j < i \<longrightarrow> \<not> fl_lt (g ! j) threshold"
    "s = t ! i"
    by blast
  have kip: "nat k \<le> ip"
  proof (rule ccontr)
    assume "\<not> nat k \<le> ip"
    then have "g ! ip = NaN" using gn(2) by simp
    then show False using p(3) by simp
  qed
  have le: "fl_le (t ! ip) v"
    using sorted_wrt_fl_lt_le[OF assms(4) n2 p(1,2)] p(8) sv by simp
  show ?thesis
    using g kip p sv le by (intro exI[of _ g] exI[of _ ip] exI[of _ i]) simp
qed

theorem saturation_time_is_first_crossing_after_peak_witness:
  "\<exists>g ip is.
      growth_rate exact w1_t (map (fl_log exact) w1_phi2) 1 = Inr g \<and>
      nat 1 \<le> ip \<and> ip \<le> is \<and> is < length w1_t \<and> \<not> is_nan (g ! ip) \<and>
      (\<forall>j<length w1_t. \<not> is_nan (g ! j) \<longrightarrow> fl_le (g ! j) (g ! ip)) \<and>
      (\<forall>j<ip. \<not> is_nan (g ! j) \<longrightarrow> fl_lt (g ! j) (g ! ip)) \<and>
      fl_lt (g ! is) (Fin (1/10)) \<and>
      (\<forall>j. ip \<le> j \<and> j < is \<longrightarrow> \<not> fl_lt (g ! j) (Fin (1/10))) \<and>
      Fin 2 = w1_t ! is \<and> fl_le (w1_t ! ip) (Fin 2)"
proof -
  have a: "arrays1 ds_w1 ''t'' = Some w1_t" and b: "arrays1 ds_w1 ''phi2'' = Some w1_phi2"
    by (simp_all add: ds_w1_def)
  have c: "length w1_phi2 = length w1_t" by (simp add: w1_t_def w1_phi2_def)
  have d: "sorted_wrt fl_lt w1_t" by (simp add: w1_t_def)
  have e: "(1::int) \<le> 1" "(1::int) < int (length w1_t)" by (simp_all add: w1_t_def)
  have f: "\<not> is_nan (Fin 2)" by simp
  show ?thesis
    by (rule saturation_time_is_first_crossing_after_peak[OF a b c d w1_idx e w1_det f])
qed

text \<open>
  Claim C2. A series of two samples with the default window of 20 gives the window index
  20, which is not below the length of the series: no growth rate is defined, and
  \<open>np_nanargmax\<close> raises \<^verbatim>\<open>ValueError\<close> on the array of NaN. The same happens for a field
  that is negative everywhere. The detector does not return NaN on these inputs.
\<close>

theorem all_missing_growth_rate_raises:
  "detect_saturation_time exact ds_short (Fin 20) (Fin (1 / 10)) =
     Inl (ValueError ''All-NaN slice encountered'') \<and>
   detect_saturation_time exact ds_negative (Fin 1) (Fin (1 / 10)) =
     Inl (ValueError ''All-NaN slice encountered'')"
  by (simp add: ds_short_def ds_negative_def detector_defs)

text \<open>
  Claim C3, as stated, fails: a call with a negative threshold, a call with a negative
  window and a call with a field array shorter than the time array all return normally.
\<close>

theorem invalid_arguments_accepted:
  "detect_saturation_time exact ds_flat (Fin 1) (Fin (- 1)) = Inr NaN \<and>
   detect_saturation_time exact ds_flat (Fin (- 1)) (Fin (1 / 10)) = Inr (Fin 2) \<and>
   detect_saturation_time exact ds_unequal (Fin 1) (Fin (1 / 10)) = Inr (Fin 1)"
  by (simp add: ds_flat_def ds_unequal_def detector_defs ceiling_minus)

text \<open>
  Claim C3, as amended. The detector checks none of its arguments. Whether a call raises,
  and what it raises, does not depend on the threshold; and every error of a call is one
  that a Python or NumPy operation of the body raises: \<^verbatim>\<open>KeyError\<close> for a variable the
  dataset does not hold, \<^verbatim>\<open>IndexError\<close> for a time array shorter than two,
  \<^verbatim>\<open>OverflowError\<close> or \<^verbatim>\<open>ValueError\<close> for a window index that is infinite or NaN,
  \<^verbatim>\<open>ValueError\<close> for shapes that do not broadcast, and \<^verbatim>\<open>ValueError\<close> for a growth-rate
  array of NaN only.
\<close>

theorem detector_checks_no_argument:
  "(detect_saturation_time rnd ds window threshold = Inl e) =
     (detect_saturation_time rnd ds window threshold' = Inl e) \<and>
   (detect_saturation_time rnd ds window threshold = Inl e \<longrightarrow>
      e \<in> {KeyError ''t'', KeyError ''phi2'', IndexError, OverflowError,
           ValueError ''cannot convert float NaN to integer'',
           ValueError ''operands could not be broadcast together'',
           ValueError ''could not broadcast input array'',
           ValueError ''All-NaN slice encountered''})"
proof (intro conjI impI)
  show "(detect_saturation_time rnd ds window threshold = Inl e) =
     (detect_saturation_time rnd ds window threshold' = Inl e)"
    using detect_arrays_threshold[of rnd _ _ window threshold e threshold']
    by (auto simp: detect_saturation_time_def split: sum.splits)
next
  assume a: "detect_saturation_time rnd ds window threshold = Inl e"
  show "e \<in> {KeyError ''t'', KeyError ''phi2'', IndexError, OverflowError,
           ValueError ''cannot convert float NaN to integer'',
           ValueError ''operands could not be broadcast together'',
           ValueError ''could not broadcast input array'',
           ValueError ''All-NaN slice encountered''}"
  proof (cases "arrays1 ds ''t''")
    case None
    then show ?thesis using a by (simp add: detect_saturation_time_def ds_values1_def)
  next
    case (Some t)
    note t = this
    show ?thesis
    proof (cases "arrays1 ds ''phi2''")
      case None
      then show ?thesis using a t by (simp add: detect_saturation_time_def ds_values1_def)
    next
      case (Some phi2)
      then have "detect_arrays rnd t phi2 window threshold = Inl e"
        using a detect_saturation_time_arrays[OF t Some] by simp
      then show ?thesis using detect_arrays_errors by fastforce
    qed
  qed
qed

theorem detector_checks_no_argument_witness:
  "(detect_saturation_time exact ds_short (Fin 20) (Fin (- 1)) =
      Inl (ValueError ''All-NaN slice encountered'')) =
     (detect_saturation_time exact ds_short (Fin 20) (Fin (1 / 10)) =
      Inl (ValueError ''All-NaN slice encountered'')) \<and>
   detect_saturation_time exact ds_short (Fin 20) (Fin (- 1)) =
      Inl (ValueError ''All-NaN slice encountered'') \<and>
   ValueError ''All-NaN slice encountered'' \<in>
     {KeyError ''t'', KeyError ''phi2'', IndexError, OverflowError,
      ValueError ''cannot convert float NaN to integer'',
      ValueError ''operands could not be broadcast together'',
      ValueError ''could not broadcast input array'',
      ValueError ''All-NaN slice encountered''}"
proof -
  have a: "detect_saturation_time exact ds_short (Fin 20) (Fin (- 1)) =
      Inl (ValueError ''All-NaN slice encountered'')"
    by (simp add: ds_short_def detector_defs)
  note th = detector_checks_no_argument[of exact ds_short "Fin 20" "Fin (- 1)"
      "ValueError ''All-NaN slice encountered''" "Fin (1 / 10)"]
  show ?thesis
    by (intro conjI conjunct1[OF th] a mp[OF conjunct2[OF th] a])
qed

text \<open>
  Claim C4. The time array is finite and strictly increasing, the field is finite and
  strictly positive, and \<open>1 \<le> k < N\<close> for the window index \<open>k\<close>, which is the floor of
  the window divided by the first sampling interval. The growth-rate series \<open>g\<close> that the
  detector derives has the length of the time array. At every index \<open>i\<close> in \<open>[k, N)\<close> it
  holds the difference of the natural logarithms of \<open>phi2 ! i\<close> and \<open>phi2 ! (i - k)\<close>
  divided by the difference of the times; the two logarithms, the two differences and the
  quotient are each rounded once. Every index below \<open>k\<close> holds NaN: it is never below the
  threshold, and the peak returned by \<open>np_nanargmax\<close> is at an index \<open>\<ge> k\<close>. The value
  returned by \<open>detect_saturation_time\<close> is the result of the scan of this series from the
  peak on. The rounding is assumed to map no non-zero real to zero (the difference of two
  distinct binary64 numbers is never rounded to zero).
\<close>

theorem growth_rate_is_windowed_log_difference:
  assumes "arrays1 ds ''t'' = Some t" and "arrays1 ds ''phi2'' = Some phi2"
    and "length phi2 = length t" and "sorted_wrt fl_lt t" and "list_all is_finite t"
    and "list_all positive phi2" and "no_flush rnd"
    and "window_index rnd t window = Inr k" and "1 \<le> k" and "k < int (length t)"
  shows "\<exists>q g m.
           fl_div rnd window (fl_sub rnd (t ! 1) (t ! 0)) = Fin q \<and> k = \<lfloor>q\<rfloor> \<and>
           growth_rate rnd t (map (fl_log rnd) phi2) k = Inr g \<and> length g = length t \<and>
           (\<forall>i. nat k \<le> i \<and> i < length t \<longrightarrow>
              (\<exists>p p' a a'.
                 phi2 ! i = Fin p \<and> phi2 ! (i - nat k) = Fin p' \<and> 0 < p \<and> 0 < p' \<and>
                 t ! i = Fin a \<and> t ! (i - nat k) = Fin a' \<and> a' < a \<and>
                 g ! i = Fin (rnd (rnd (rnd (ln p) - rnd (ln p')) / rnd (a - a'))))) \<and>
           (\<forall>i<nat k. g ! i = NaN \<and> \<not> fl_lt (g ! i) threshold) \<and>
           np_nanargmax g = Inr m \<and> nat k \<le> m \<and> m < length t \<and>
           detect_saturation_time rnd ds window threshold =
             (case saturated_times t g m threshold of [] \<Rightarrow> Inr NaN | s # _ \<Rightarrow> Inr s)"
proof -
  from growth_rate_entries[OF assms(3,4,5,6,7,8,9,10), of threshold] obtain q g m where
    q: "fl_div rnd window (fl_sub rnd (t ! 1) (t ! 0)) = Fin q" "k = \<lfloor>q\<rfloor>"
    and g: "growth_rate rnd t (map (fl_log rnd) phi2) k = Inr g" "length g = length t"
    and en: "\<forall>i. nat k \<le> i \<and> i < length t \<longrightarrow>
               g ! i = fl_div rnd (fl_sub rnd (fl_log rnd (phi2 ! i))
                                              (fl_log rnd (phi2 ! (i - nat k))))
                                  (fl_sub rnd (t ! i) (t ! (i - nat k))) \<and>
               is_finite (g ! i)"
    and mi: "\<forall>i<nat k. is_nan (g ! i) \<and> \<not> fl_lt (g ! i) threshold"
    and m: "np_nanargmax g = Inr m" "nat k \<le> m" "m < length t"
    by blast
  have kn: "0 < nat k" using assms(9) by simp
  have entries: "\<forall>i. nat k \<le> i \<and> i < length t \<longrightarrow>
              (\<exists>p p' a a'.
                 phi2 ! i = Fin p \<and> phi2 ! (i - nat k) = Fin p' \<and> 0 < p \<and> 0 < p' \<and>
                 t ! i = Fin a \<and> t ! (i - nat k) = Fin a' \<and> a' < a \<and>
                 g ! i = Fin (rnd (rnd (rnd (ln p) - rnd (ln p')) / rnd (a - a'))))"
  proof (intro allI impI)
    fix i assume i: "nat k \<le> i \<and> i < length t"
    then have lt: "i - nat k < i" "i - nat k < length t" "i < length t" using kn by auto
    have "positive (phi2 ! i)" "positive (phi2 ! (i - nat k))"
      using assms(6,3) lt by (simp_all add: list_all_length)
    then obtain p p' where p: "phi2 ! i = Fin p" "0 < p" "phi2 ! (i - nat k) = Fin p'" "0 < p'"
      by (cases "phi2 ! i"; cases "phi2 ! (i - nat k)") (auto simp: positive_def)
    have "is_finite (t ! i)" "is_finite (t ! (i - nat k))"
      using assms(5) lt by (simp_all add: list_all_length)
    then obtain a a' where a: "t ! i = Fin a" "t ! (i - nat k) = Fin a'"
      by (cases "t ! i"; cases "t ! (i - nat k)") auto
    have "fl_lt (t ! (i - nat k)) (t ! i)"
      using assms(4) lt by (simp add: sorted_wrt_iff_nth_less)
    then have aa: "a' < a" using a by simp
    then have "a - a' \<noteq> 0" by simp
    then have nz: "rnd (a - a') \<noteq> 0" using assms(7) unfolding no_flush_def by blast
    have "g ! i = fl_div rnd (fl_sub rnd (fl_log rnd (phi2 ! i))
                                              (fl_log rnd (phi2 ! (i - nat k))))
                                  (fl_sub rnd (t ! i) (t ! (i - nat k)))"
      using en i by blast
    then have "g ! i = Fin (rnd (rnd (rnd (ln p) - rnd (ln p')) / rnd (a - a')))"
      using p a nz by (simp add: fl_sub_def)
    then show "\<exists>p p' a a'.
                 phi2 ! i = Fin p \<and> phi2 ! (i - nat k) = Fin p' \<and> 0 < p \<and> 0 < p' \<and>
                 t ! i = Fin a \<and> t ! (i - nat k) = Fin a' \<and> a' < a \<and>
                 g ! i = Fin (rnd (rnd (rnd (ln p) - rnd (ln p')) / rnd (a - a')))"
      using p a aa by blast
  qed
  have missing: "\<forall>i<nat k. g ! i = NaN \<and> \<not> fl_lt (g ! i) threshold"
  proof (intro allI impI)
    fix i assume "i < nat k"
    then have "is_nan (g ! i)" "\<not> fl_lt (g ! i) threshold" using mi by simp_all
    then show "g ! i = NaN \<and> \<not> fl_lt (g ! i) threshold" by (cases "g ! i") simp_all
  qed
  have det: "detect_saturation_time rnd ds window threshold =
             (case saturated_times t g m threshold of [] \<Rightarrow> Inr NaN | s # _ \<Rightarrow> Inr s)"
    using detect_saturation_time_arrays[OF assms(1,2), of rnd window threshold]
      detect_arrays_unfold[OF assms(8) g(1), of threshold] m(1) by simp
  show ?thesis
    by (rule exI[of _ q], rule exI[of _ g], rule exI[of _ m])
       (intro conjI q g entries missing m det)
qed

theorem growth_rate_is_windowed_log_difference_witness:
  "window_index binary64 w1_t (Fin 1) = Inr 1 \<and>
   growth_rate binary64 w1_t (map (fl_log binary64) w1_phi2) 1 =
     Inr [NaN, Fin 1, Fin 0, Fin 0] \<and>
   np_nanargmax [NaN, Fin 1, Fin 0, Fin 0] = Inr 1 \<and>
   detect_saturation_time binary64 ds_w1 (Fin 1) (Fin (1 / 10)) = Inr (Fin 2)"
proof -
  have a: "arrays1 ds_w1 ''t'' = Some w1_t" and b: "arrays1 ds_w1 ''phi2'' = Some w1_phi2"
    by (simp_all add: ds_w1_def)
  have c: "length w1_phi2 = length w1_t" by (simp add: w1_t_def w1_phi2_def)
  have d: "sorted_wrt fl_lt w1_t" by (simp add: w1_t_def)
  have e: "list_all is_finite w1_t" by (simp add: w1_t_def)
  have f: "list_all positive w1_phi2" by (simp add: w1_phi2_def positive_def)
  have k: "(1::int) \<le> 1" "(1::int) < int (length w1_t)" by (simp_all add: w1_t_def)
  from growth_rate_is_windowed_log_difference[OF a b c d e f no_flush_binary64
      w1_idx_binary64 k, of "Fin (1 / 10)"]
  obtain g m where
    g: "growth_rate binary64 w1_t (map (fl_log binary64) w1_phi2) 1 = Inr g"
      "length g = length w1_t"
    and en: "\<forall>i. nat 1 \<le> i \<and> i < length w1_t \<longrightarrow>
              (\<exists>p p' a a'.
                 w1_phi2 ! i = Fin p \<and> w1_phi2 ! (i - nat 1) = Fin p' \<and> 0 < p \<and> 0 < p' \<and>
                 w1_t ! i = Fin a \<and> w1_t ! (i - nat 1) = Fin a' \<and> a' < a \<and>
                 g ! i = Fin (binary64 (binary64 (binary64 (ln p) - binary64 (ln p')) /
                                binary64 (a - a'))))"
    and mi: "\<forall>i<nat 1. g ! i = NaN \<and> \<not> fl_lt (g ! i) (Fin (1 / 10))"
    and m: "np_nanargmax g = Inr m"
    and det: "detect_saturation_time binary64 ds_w1 (Fin 1) (Fin (1 / 10)) =
             (case saturated_times w1_t g m (Fin (1 / 10)) of [] \<Rightarrow> Inr NaN | s # _ \<Rightarrow> Inr s)"
    by blast
  have g0: "g ! 0 = NaN" using mi by simp
  have g1: "g ! 1 = Fin 1"
    using en[rule_format, of 1] by (auto simp: w1_t_def w1_phi2_def binary64_one binary64_zero)
  have g2: "g ! 2 = Fin 0"
    using en[rule_format, of 2] by (auto simp: w1_t_def w1_phi2_def binary64_one binary64_zero)
  have g3: "g ! 3 = Fin 0"
    using en[rule_format, of 3] by (auto simp: w1_t_def w1_phi2_def binary64_one binary64_zero)
  have len: "length g = 4" using g(2) by (simp add: w1_t_def)
  have geq: "g = [NaN, Fin 1, Fin 0, Fin 0]"
  proof (rule nth_equalityI)
    show "length g = length [NaN, Fin 1, Fin 0, Fin 0]" using len by simp
    fix i assume "i < length g"
    then consider "i = 0" | "i = 1" | "i = 2" | "i = 3" using len by linarith
    then show "g ! i = [NaN, Fin 1, Fin 0, Fin 0] ! i"
      by cases (use g0 g1 g2 g3 in simp_all)
  qed
  have am: "np_nanargmax [NaN, Fin 1, Fin 0, Fin 0] = Inr 1"
    by (simp add: np_nanargmax_def np_argmax_def)
  then have m1: "m = 1" using m geq by simp
  have "detect_saturation_time binary64 ds_w1 (Fin 1) (Fin (1 / 10)) = Inr (Fin 2)"
    unfolding det geq m1
    by (simp add: w1_t_def saturated_times_def mask_select_def slice_from_def slice_bound_def)
  then show ?thesis using w1_idx_binary64 g(1) geq am by simp
qed

text \<open>
  Claim C5, as stated, fails for a field value that is zero: its logarithm is \<open>-inf\<close>, not
  NaN, and the growth rate computed from it is \<open>-inf\<close>, which is below every finite
  threshold. On the field \<open>1, e, e\<^sup>2, 0\<close> the entry at index 3 is \<open>-inf\<close> and the
  detector returns the time of that sample.
\<close>

theorem zero_field_value_is_not_missing:
  "window_index exact w1_t (Fin 1) = Inr 1 \<and>
   growth_rate exact w1_t (map (fl_log exact) zero_phi2) 1 = Inr [NaN, Fin 1, Fin 1, NInf] \<and>
   \<not> is_nan ([NaN, Fin 1, Fin 1, NInf] ! 3) \<and>
   detect_saturation_time exact ds_zero (Fin 1) (Fin (1 / 10)) = Inr (Fin 3)"
  by (simp add: ds_zero_def zero_phi2_def w1_t_def detector_defs)

text \<open>
  Claim C5, as amended. The time array is finite and strictly increasing,
  \<open>1 \<le> k < N\<close>, and at least one growth-rate window has both field values finite and
  strictly positive. Then the call does not raise; every growth-rate entry that a
  strictly negative field value enters is NaN; the peak returned by \<open>np_nanargmax\<close> is
  not a NaN entry; the result is NaN or the time of an entry at or after the peak that is
  not NaN and is below the threshold; and NaN is neither below nor above the threshold.
  (A zero field value is left out: its growth-rate entries are infinite, not missing.)
\<close>

theorem negative_field_value_is_missing:
  assumes "arrays1 ds ''t'' = Some t" and "arrays1 ds ''phi2'' = Some phi2"
    and "length phi2 = length t" and "sorted_wrt fl_lt t" and "list_all is_finite t"
    and "no_flush rnd"
    and "window_index rnd t window = Inr k" and "1 \<le> k" and "k < int (length t)"
    and "nat k \<le> w" and "w < length t"
    and "positive (phi2 ! w)" and "positive (phi2 ! (w - nat k))"
  shows "\<exists>g m r.
           growth_rate rnd t (map (fl_log rnd) phi2) k = Inr g \<and>
           (\<forall>i. nat k \<le> i \<and> i < length t \<and>
                (fl_lt (phi2 ! i) (Fin 0) \<or> fl_lt (phi2 ! (i - nat k)) (Fin 0)) \<longrightarrow>
                is_nan (g ! i)) \<and>
           np_nanargmax g = Inr m \<and> m < length t \<and> \<not> is_nan (g ! m) \<and>
           detect_saturation_time rnd ds window threshold = Inr r \<and>
           (r = NaN \<or>
            (\<exists>i. m \<le> i \<and> i < length t \<and> r = t ! i \<and> \<not> is_nan (g ! i) \<and>
                 fl_lt (g ! i) threshold)) \<and>
           (\<forall>x. is_nan x \<longrightarrow> \<not> fl_lt x threshold \<and> \<not> fl_lt threshold x)"
proof -
  let ?L = "map (fl_log rnd) phi2"
  have lenL: "length ?L = length t" using assms(3) by simp
  obtain g where g: "growth_rate rnd t ?L k = Inr g"
    using growth_rate_regular[OF lenL assms(8,9), of rnd] by blast
  note gn = growth_rate_regular_nth[OF lenL assms(8,9) g]
  have kn: "0 < nat k" "nat k < length t" using assms(8,9) by auto
  have neg: "\<forall>i. nat k \<le> i \<and> i < length t \<and>
                (fl_lt (phi2 ! i) (Fin 0) \<or> fl_lt (phi2 ! (i - nat k)) (Fin 0)) \<longrightarrow>
                is_nan (g ! i)"
  proof (intro allI impI)
    fix i
    assume i: "nat k \<le> i \<and> i < length t \<and>
                (fl_lt (phi2 ! i) (Fin 0) \<or> fl_lt (phi2 ! (i - nat k)) (Fin 0))"
    then have lt: "i < length phi2" "i - nat k < length phi2" using assms(3) by auto
    have eq: "g ! i = fl_div rnd (fl_sub rnd (fl_log rnd (phi2 ! i))
                                             (fl_log rnd (phi2 ! (i - nat k))))
                                 (fl_sub rnd (t ! i) (t ! (i - nat k)))"
      using gn(3)[of i] i lt by simp
    have "fl_sub rnd (fl_log rnd (phi2 ! i)) (fl_log rnd (phi2 ! (i - nat k))) = NaN"
      using i fl_log_negative[of _ rnd] fl_sub_NaN by metis
    then show "is_nan (g ! i)" using eq by simp
  qed
  have wl: "w - nat k < w" "w - nat k < length t" using assms(10,11) kn by auto
  have fw: "is_finite (g ! w)"
  proof -
    have "is_finite (t ! w)" "is_finite (t ! (w - nat k))"
      using assms(5,11) wl by (simp_all add: list_all_length)
    moreover have "fl_lt (t ! (w - nat k)) (t ! w)"
      using assms(4,11) wl by (simp add: sorted_wrt_iff_nth_less)
    moreover have "g ! w = fl_div rnd (fl_sub rnd (fl_log rnd (phi2 ! w))
                                             (fl_log rnd (phi2 ! (w - nat k))))
                                 (fl_sub rnd (t ! w) (t ! (w - nat k)))"
      using gn(3)[of w] assms(10,11,3) wl by simp
    ultimately show ?thesis
      using finite_growth_rate_entry[OF assms(6,12,13)] by simp
  qed
  then have nw: "\<not> is_nan (g ! w)" by (cases "g ! w") auto
  have ex: "\<exists>x\<in>set g. \<not> is_nan x" using nw assms(11) gn(1) by (metis nth_mem)
  from np_nanargmax_spec[OF ex] obtain m where m: "np_nanargmax g = Inr m" "m < length g"
    "\<forall>j<length g. \<not> is_nan (g ! j) \<longrightarrow>
       fl_le (g ! j) (if is_nan (g ! m) then NInf else g ! m)"
    by blast
  have "fl_le (g ! w) (if is_nan (g ! m) then NInf else g ! m)"
    using m(3) nw assms(11) gn(1) by simp
  then have mn: "\<not> is_nan (g ! m)" using fw by (cases "g ! w") (auto split: if_splits)
  have mlt: "m < length t" using m(2) gn(1) by simp
  define r where "r = (case saturated_times t g m threshold of [] \<Rightarrow> NaN | s # _ \<Rightarrow> s)"
  have "detect_arrays rnd t phi2 window threshold = Inr r"
    using detect_arrays_unfold[OF assms(7) g, where threshold = threshold] m(1)
    by (simp add: r_def split: list.splits)
  then have det: "detect_saturation_time rnd ds window threshold = Inr r"
    using detect_saturation_time_arrays[OF assms(1,2)] by simp
  have res: "r = NaN \<or>
            (\<exists>i. m \<le> i \<and> i < length t \<and> r = t ! i \<and> \<not> is_nan (g ! i) \<and>
                 fl_lt (g ! i) threshold)"
  proof (cases "saturated_times t g m threshold")
    case Nil
    then show ?thesis by (simp add: r_def)
  next
    case (Cons s rest)
    have ml: "m \<le> length t" using mlt by simp
    from saturated_times_Cons[OF gn(1) ml Cons] obtain i where i:
      "m \<le> i" "i < length t" "fl_lt (g ! i) threshold" "s = t ! i"
      by blast
    have "\<not> is_nan (g ! i)" using i(3) fl_lt_not_nan by blast
    moreover have "r = t ! i" using Cons i(4) by (simp add: r_def)
    ultimately show ?thesis using i by blast
  qed
  have cmp: "\<forall>x. is_nan x \<longrightarrow> \<not> fl_lt x threshold \<and> \<not> fl_lt threshold x"
    using nan_never_compares by blast
  show ?thesis
    by (rule exI[of _ g], rule exI[of _ m], rule exI[of _ r])
       (intro conjI g neg m(1) mlt mn det res cmp)
qed

theorem negative_field_value_is_missing_witness:
  "\<exists>g m r.
     growth_rate binary64 w1_t (map (fl_log binary64) neg_phi2) 1 = Inr g \<and>
     (\<forall>i. nat 1 \<le> i \<and> i < length w1_t \<and>
          (fl_lt (neg_phi2 ! i) (Fin 0) \<or> fl_lt (neg_phi2 ! (i - nat 1)) (Fin 0)) \<longrightarrow>
          is_nan (g ! i)) \<and>
     np_nanargmax g = Inr m \<and> m < length w1_t \<and> \<not> is_nan (g ! m) \<and>
     detect_saturation_time binary64 ds_neg (Fin 1) (Fin (1 / 10)) = Inr r \<and>
     (r = NaN \<or>
      (\<exists>i. m \<le> i \<and> i < length w1_t \<and> r = w1_t ! i \<and> \<not> is_nan (g ! i) \<and>
           fl_lt (g ! i) (Fin (1 / 10)))) \<and>
     (\<forall>x. is_nan x \<longrightarrow> \<not> fl_lt x (Fin (1 / 10)) \<and> \<not> fl_lt (Fin (1 / 10)) x)"
proof -
  have a: "arrays1 ds_neg ''t'' = Some w1_t" and b: "arrays1 ds_neg ''phi2'' = Some neg_phi2"
    by (simp_all add: ds_neg_def)
  have c: "length neg_phi2 = length w1_t" by (simp add: w1_t_def neg_phi2_def)
  have d: "sorted_wrt fl_lt w1_t" by (simp add: w1_t_def)
  have e: "list_all is_finite w1_t" by (simp add: w1_t_def)
  have f: "(1::int) \<le> 1" "(1::int) < int (length w1_t)" by (simp_all add: w1_t_def)
  have h: "nat 1 \<le> (1::nat)" "(1::nat) < length w1_t" by (simp_all add: w1_t_def)
  have p: "positive (neg_phi2 ! 1)" "positive (neg_phi2 ! (1 - nat 1))"
    by (simp_all add: neg_phi2_def positive_def)
  show ?thesis
    by (rule negative_field_value_is_missing[OF a b c d e no_flush_binary64
          w1_idx_binary64 f h p])
qed

text \<open>
  Claim C6. With \<open>1 \<le> k < N\<close> and a peak index \<open>m\<close> returned by \<open>np_nanargmax\<close>, if every
  defined growth-rate entry from the peak onward is at least the threshold, the detector
  returns NaN ("not found") and raises nothing.
\<close>

theorem no_crossing_after_peak_returns_nan:
  assumes "arrays1 ds ''t'' = Some t" and "arrays1 ds ''phi2'' = Some phi2"
    and "length phi2 = length t"
    and "window_index rnd t window = Inr k" and "1 \<le> k" and "k < int (length t)"
    and "growth_rate rnd t (map (fl_log rnd) phi2) k = Inr g"
    and "np_nanargmax g = Inr m"
    and "\<forall>i. m \<le> i \<and> i < length t \<and> \<not> is_nan (g ! i) \<longrightarrow> fl_le threshold (g ! i)"
  shows "detect_saturation_time rnd ds window threshold = Inr NaN"
proof -
  have lenL: "length (map (fl_log rnd) phi2) = length t" using assms(3) by simp
  have len: "length g = length t"
    using growth_rate_regular_nth(1)[OF lenL assms(5,6,7)] .
  have ml: "m \<le> length t" using np_nanargmax_less[OF assms(8)] len by simp
  have "\<forall>i. m \<le> i \<and> i < length t \<longrightarrow> \<not> fl_lt (g ! i) threshold"
  proof (intro allI impI)
    fix i assume i: "m \<le> i \<and> i < length t"
    show "\<not> fl_lt (g ! i) threshold"
    proof (cases "is_nan (g ! i)")
      case True
      then show ?thesis by (cases "g ! i") auto
    next
      case False
      then have "fl_le threshold (g ! i)" using assms(9) i by blast
      then show ?thesis by (rule fl_le_not_lt)
    qed
  qed
  then have "saturated_times t g m threshold = []"
    using saturated_times_Nil[OF len ml] by simp
  then have "detect_arrays rnd t phi2 window threshold = Inr NaN"
    using detect_arrays_unfold[OF assms(4,7)] assms(8) by simp
  then show ?thesis using detect_saturation_time_arrays[OF assms(1,2)] by simp
qed

theorem no_crossing_after_peak_returns_nan_witness:
  "detect_saturation_time exact ds_grow (Fin 1) (Fin (1 / 10)) = Inr NaN"
proof -
  have a: "arrays1 ds_grow ''t'' = Some w1_t" and b: "arrays1 ds_grow ''phi2'' = Some grow_phi2"
    by (simp_all add: ds_grow_def)
  have c: "length grow_phi2 = length w1_t" by (simp add: w1_t_def grow_phi2_def)
  have e: "(1::int) \<le> 1" "(1::int) < int (length w1_t)" by (simp_all add: w1_t_def)
  have f: "\<forall>i. 1 \<le> i \<and> i < length w1_t \<and> \<not> is_nan ([NaN, Fin 1, Fin 1, Fin 1] ! i) \<longrightarrow>
             fl_le (Fin (1 / 10)) ([NaN, Fin 1, Fin 1, Fin 1] ! i)"
    by (auto simp: w1_t_def nth_Cons')
  show ?thesis
    by (rule no_crossing_after_peak_returns_nan[OF a b c w1_idx e grow_g grow_peak f])
qed

text \<open>
  The scenario of the specification in exact arithmetic: the growth rate is \<open>1 / 2\<close> on
  \<open>[5, 25]\<close>, falls by \<open>1 / 10\<close> per sample and is \<open>0\<close> from index 30 on, so the peak is
  index 5, the first growth rate below the threshold is at index 30, and the detector
  returns 30.
\<close>

lemma scenario_saturation_time_exact:
  "detect_saturation_time exact ds_scenario (Fin 5) (Fin (1 / 10)) = Inr (Fin 30) \<and>
   fl_le (Fin 25) (Fin 30) \<and> fl_le (Fin 30) (Fin 30)"
proof -
  let ?t = scenario_time and ?thr = "Fin (1 / 10)"
  have lenL: "length (map (fl_log exact) scenario_field) = length ?t"
    by (simp add: scenario_time_def scenario_field_def)
  have n: "length ?t = 50" by (simp add: scenario_time_def)
  have k: "(1::int) \<le> 5" "(5::int) < int (length ?t)" using n by simp_all
  obtain g where g: "growth_rate exact ?t (map (fl_log exact) scenario_field) 5 = Inr g"
    using growth_rate_regular[OF lenL k, of exact] by blast
  note gn = growth_rate_regular_nth[OF lenL k g]
  note gv = scenario_growth_rate[OF g]
  have glen: "length g = 50" using gn(1) n by simp
  have g5: "g ! 5 = Fin (1 / 2)" using gv[of 5] by simp
  have g30: "g ! 30 = Fin 0" using gv[of 30] by simp
  have ex: "\<exists>x\<in>set g. \<not> is_nan x"
  proof -
    have "g ! 5 \<in> set g" using glen by (intro nth_mem) simp
    then show ?thesis using g5 by force
  qed
  from np_nanargmax_spec[OF ex] obtain m where m: "np_nanargmax g = Inr m" "m < length g"
    and mx: "\<forall>j<length g. \<not> is_nan (g ! j) \<longrightarrow>
               fl_le (g ! j) (if is_nan (g ! m) then NInf else g ! m)"
    and fs: "\<forall>j<m. \<not> is_nan (g ! j) \<longrightarrow>
               fl_lt (g ! j) (if is_nan (g ! m) then NInf else g ! m)"
    by blast
  have "5 < length g" "\<not> is_nan (g ! 5)" using glen g5 by simp_all
  then have "fl_le (g ! 5) (if is_nan (g ! m) then NInf else g ! m)"
    using mx by blast
  then have "fl_le (Fin (1 / 2)) (if is_nan (g ! m) then NInf else g ! m)"
    using g5 by simp
  then have mn: "\<not> is_nan (g ! m)" by (auto split: if_splits)
  have m5: "5 \<le> m"
  proof (rule ccontr)
    assume "\<not> 5 \<le> m"
    then have "g ! m = NaN" using gn(2)[of m] by simp
    then show False using mn by simp
  qed
  have gm: "g ! m = Fin ((real (min m 25) - real (min (m - 5) 25)) / 10)"
    using gv[OF m5] m(2) glen by simp
  have "m = 5"
  proof (rule ccontr)
    assume "m \<noteq> 5"
    then have "5 < m" using m5 by simp
    moreover have "\<not> is_nan (g ! 5)" using g5 by simp
    ultimately have "fl_lt (g ! 5) (if is_nan (g ! m) then NInf else g ! m)"
      using fs by blast
    then have "fl_lt (g ! 5) (g ! m)" using mn by simp
    then have "1 / 2 < (real (min m 25) - real (min (m - 5) 25)) / 10"
      using g5 gm by simp
    then show False using scenario_values(1)[OF m5] by simp
  qed
  have len: "length g = length ?t" using gn(1) .
  have ml: "5 \<le> length ?t" using n by simp
  have st: "saturated_times ?t g 5 ?thr = Fin 30 # tl (saturated_times ?t g 5 ?thr)"
  proof (cases "saturated_times ?t g 5 ?thr")
    case Nil
    then have "\<forall>i. 5 \<le> i \<and> i < length ?t \<longrightarrow> \<not> fl_lt (g ! i) ?thr"
      using saturated_times_Nil[OF len ml] by simp
    then have "\<not> fl_lt (g ! 30) ?thr" using n by simp
    then show ?thesis using g30 by simp
  next
    case (Cons s rest)
    from saturated_times_Cons[OF len ml Cons] obtain i where i:
      "5 \<le> i" "i < length ?t" "fl_lt (g ! i) ?thr"
      "\<forall>j. 5 \<le> j \<and> j < i \<longrightarrow> \<not> fl_lt (g ! j) ?thr" "s = ?t ! i"
      by blast
    have i50: "i < 50" using i(2) n by simp
    have "\<not> i < 30"
    proof
      assume "i < 30"
      then have "1 / 10 \<le> (real (min i 25) - real (min (i - 5) 25)) / 10"
        using scenario_values(2)[OF i(1)] by simp
      then show False using i(3) gv[OF i(1) i50] by simp
    qed
    moreover have "\<not> 30 < i"
    proof
      assume "30 < i"
      then have "\<not> fl_lt (g ! 30) ?thr" using i(4) by simp
      then show False using g30 by simp
    qed
    ultimately have "i = 30" by simp
    then have "s = Fin 30" using i(5) by (simp add: scenario_time_def)
    then show ?thesis using Cons by simp
  qed
  have "detect_arrays exact ?t scenario_field (Fin 5) ?thr = Inr (Fin 30)"
  proof -
    have "np_nanargmax g = Inr 5" using m(1) \<open>m = 5\<close> by simp
    then have "detect_arrays exact ?t scenario_field (Fin 5) ?thr =
        (case saturated_times ?t g 5 ?thr of [] \<Rightarrow> Inr NaN | s # _ \<Rightarrow> Inr s)"
      using detect_arrays_unfold[OF scenario_idx g, where threshold = ?thr] by simp
    also have "\<dots> = Inr (Fin 30)" by (subst st) simp
    finally show ?thesis .
  qed
  then have "detect_saturation_time exact ds_scenario (Fin 5) ?thr = Inr (Fin 30)"
    by (simp add: detect_saturation_time_def ds_values1_def ds_scenario_def)
  then show ?thesis by simp
qed

text \<open>
  Claim C7. The scenario is the time array \<open>0, 1, \<dots>, 49\<close>, a field that is \<open>exp (i / 2)\<close>
  up to \<open>i = 25\<close> and equal to its value at 25 afterwards, window 5 and threshold
  \<open>1 / 10\<close>. The detector returns a saturation time, and it lies in \<open>[25, 30]\<close>: it is 29 or
  30. This holds for every rounding with relative error at most \<open>1 / 1000\<close> that is exact
  on the integers up to 50, and for every field whose logarithm is within \<open>1 / 1000\<close> of
  \<open>i / 2\<close>, so also for the binary64 values of the exponential. (The growth rate at index
  29 is \<open>1 / 10\<close> up to rounding, which decides between 29 and 30.)
\<close>

theorem scenario_saturation_time_rounded:
  assumes "rel_err rnd (1 / 1000)" and "exact_on_ints rnd 50"
    and "\<forall>i\<le>25. 0 < y i \<and> \<bar>ln (y i) - real i / 2\<bar> \<le> 1 / 1000"
    and "arrays1 ds ''t'' = Some scenario_time"
    and "arrays1 ds ''phi2'' = Some (map (\<lambda>i. Fin (y (min i 25))) [0..<50])"
  shows "\<exists>v. detect_saturation_time rnd ds (Fin 5) (Fin (1 / 10)) = Inr (Fin v) \<and>
             (v = 29 \<or> v = 30) \<and> 25 \<le> v \<and> v \<le> 30"
proof -
  let ?t = scenario_time and ?thr = "Fin (1 / 10)"
  let ?phi = "map (\<lambda>i. Fin (y (min i 25))) [0..<50]"
  let ?G = "\<lambda>i. rnd (rnd (rnd (ln (y (min i 25))) + - rnd (ln (y (min (i - 5) 25)))) / 5)"
  have ypos: "\<forall>i\<le>25. 0 < y i" using assms(3) by blast
  have yab: "\<And>i. i \<le> 25 \<Longrightarrow> \<bar>ln (y i) - real i / 2\<bar> \<le> 1 / 1000"
    using assms(3) by blast
  have ylo: "\<And>i. i \<le> 25 \<Longrightarrow> real i / 2 - 1 / 1000 \<le> ln (y i)"
    and yhi: "\<And>i. i \<le> 25 \<Longrightarrow> ln (y i) \<le> real i / 2 + 1 / 1000"
    using yab by (fastforce simp only: abs_le_iff)+
  have lenL: "length (map (fl_log rnd) ?phi) = length ?t" by (simp add: scenario_time_def)
  have n: "length ?t = 50" by (simp add: scenario_time_def)
  have k: "(1::int) \<le> 5" "(5::int) < int (length ?t)" using n by simp_all
  obtain g where g: "growth_rate rnd ?t (map (fl_log rnd) ?phi) 5 = Inr g"
    using growth_rate_regular[OF lenL k, of rnd] by blast
  note gn = growth_rate_regular_nth[OF lenL k g]
  have gv: "\<And>i. 5 \<le> i \<Longrightarrow> i < 50 \<Longrightarrow> g ! i = Fin (?G i)"
    by (rule scenario_growth_rate_rounded[OF assms(2) ypos g])
  have glen: "length g = 50" using gn(1) n by simp
  have bound: "\<And>i. 5 \<le> i \<Longrightarrow>
      real (min i 25) / 10 - real (min (i - 5) 25) / 10 - 1 / 25 \<le> ?G i \<and>
      ?G i \<le> real (min i 25) / 10 - real (min (i - 5) 25) / 10 + 1 / 25"
  proof -
    fix i :: nat assume i: "5 \<le> i"
    have m: "min i 25 \<le> 25" "min (i - 5) 25 \<le> 25" by simp_all
    have pq: "0 \<le> real (min (i - 5) 25)" "real (min (i - 5) 25) \<le> real (min i 25)"
      "real (min i 25) \<le> 25" "real (min i 25) - real (min (i - 5) 25) \<le> 5"
      using i by (auto simp: min_def)
    show "real (min i 25) / 10 - real (min (i - 5) 25) / 10 - 1 / 25 \<le> ?G i \<and>
      ?G i \<le> real (min i 25) / 10 - real (min (i - 5) 25) / 10 + 1 / 25"
      using rounded_rate_bound[OF assms(1) ylo[OF m(1)] yhi[OF m(1)] ylo[OF m(2)]
          yhi[OF m(2)] pq]
      by blast
  qed
  have g5: "46 / 100 \<le> ?G 5" using bound[of 5] by simp
  have late: "\<And>i. 26 \<le> i \<Longrightarrow> ?G i \<le> 44 / 100"
  proof -
    fix i :: nat assume i: "26 \<le> i"
    have "?G i \<le> real (min i 25) / 10 - real (min (i - 5) 25) / 10 + 1 / 25"
      using bound[of i] i by simp
    then show "?G i \<le> 44 / 100" using scenario_exact_rate(1)[OF i] by linarith
  qed
  have early: "\<And>i. 5 \<le> i \<Longrightarrow> i \<le> 28 \<Longrightarrow> 16 / 100 \<le> ?G i"
  proof -
    fix i :: nat assume i: "5 \<le> i" "i \<le> 28"
    have "real (min i 25) / 10 - real (min (i - 5) 25) / 10 - 1 / 25 \<le> ?G i"
      using bound[OF i(1)] by simp
    then show "16 / 100 \<le> ?G i" using scenario_exact_rate(2)[OF i] by linarith
  qed
  have g30: "g ! 30 = Fin 0"
    using gv[of 30] rel_err_zero[OF assms(1)] by simp
  have ex: "\<exists>x\<in>set g. \<not> is_nan x"
  proof -
    have "g ! 5 \<in> set g" using glen by (intro nth_mem) simp
    then show ?thesis using gv[of 5] by force
  qed
  from np_nanargmax_spec[OF ex] obtain m where m: "np_nanargmax g = Inr m" "m < length g"
    and mx: "\<forall>j<length g. \<not> is_nan (g ! j) \<longrightarrow>
               fl_le (g ! j) (if is_nan (g ! m) then NInf else g ! m)"
    by blast
  have "5 < length g" "\<not> is_nan (g ! 5)" using glen gv[of 5] by simp_all
  then have "fl_le (g ! 5) (if is_nan (g ! m) then NInf else g ! m)" using mx by blast
  then have le5: "fl_le (Fin (?G 5)) (if is_nan (g ! m) then NInf else g ! m)"
    using gv[of 5] by simp
  then have mn: "\<not> is_nan (g ! m)" by (auto split: if_splits)
  have m5: "5 \<le> m"
  proof (rule ccontr)
    assume "\<not> 5 \<le> m"
    then have "g ! m = NaN" using gn(2)[of m] by simp
    then show False using mn by simp
  qed
  have m50: "m < 50" using m(2) glen by simp
  have "?G 5 \<le> ?G m" using le5 mn gv[OF m5 m50] by simp
  then have m25: "m \<le> 25" using g5 late[of m] by (cases "26 \<le> m") auto
  have len: "length g = length ?t" using gn(1) .
  have ml: "m \<le> length ?t" using m50 n by simp
  have st: "\<exists>i rest. (i = 29 \<or> i = 30) \<and> saturated_times ?t g m ?thr = ?t ! i # rest"
  proof (cases "saturated_times ?t g m ?thr")
    case Nil
    then have "\<forall>i. m \<le> i \<and> i < length ?t \<longrightarrow> \<not> fl_lt (g ! i) ?thr"
      using saturated_times_Nil[OF len ml] by simp
    then have "\<not> fl_lt (g ! 30) ?thr" using n m25 by simp
    then show ?thesis using g30 by simp
  next
    case (Cons s rest)
    from saturated_times_Cons[OF len ml Cons] obtain i where i:
      "m \<le> i" "i < length ?t" "fl_lt (g ! i) ?thr"
      "\<forall>j. m \<le> j \<and> j < i \<longrightarrow> \<not> fl_lt (g ! j) ?thr" "s = ?t ! i"
      by blast
    have i50: "i < 50" using i(2) n by simp
    have i5: "5 \<le> i" using m5 i(1) by simp
    have "\<not> i \<le> 28"
    proof
      assume "i \<le> 28"
      then have "16 / 100 \<le> ?G i" using early[OF i5] by simp
      then show False using i(3) gv[OF i5 i50] by simp
    qed
    moreover have "\<not> 30 < i"
    proof
      assume "30 < i"
      then have "\<not> fl_lt (g ! 30) ?thr" using i(4) m25 by simp
      then show False using g30 by simp
    qed
    ultimately have "i = 29 \<or> i = 30" by linarith
    then show ?thesis using Cons i(5) by blast
  qed
  then obtain i rest where i: "i = 29 \<or> i = 30" "saturated_times ?t g m ?thr = ?t ! i # rest"
    by blast
  have "detect_arrays rnd ?t ?phi (Fin 5) ?thr =
        (case saturated_times ?t g m ?thr of [] \<Rightarrow> Inr NaN | s # _ \<Rightarrow> Inr s)"
    using detect_arrays_unfold[OF scenario_idx_rounded[OF assms(2)] g, where threshold = ?thr]
      m(1) by simp
  also have "\<dots> = Inr (?t ! i)" by (subst i(2)) simp
  finally have "detect_saturation_time rnd ds (Fin 5) ?thr = Inr (?t ! i)"
    using detect_saturation_time_arrays[OF assms(4,5)] by simp
  moreover have "?t ! i = Fin (real i)" using i(1) by (auto simp: scenario_time_def)
  ultimately have "detect_saturation_time rnd ds (Fin 5) ?thr = Inr (Fin (real i))" by simp
  then show ?thesis using i(1) by (intro exI[of _ "real i"]) auto
qed

theorem scenario_saturation_time_rounded_witness:
  "\<exists>v. detect_saturation_time binary64 ds_scenario (Fin 5) (Fin (1 / 10)) = Inr (Fin v) \<and>
       (v = 29 \<or> v = 30) \<and> 25 \<le> v \<and> v \<le> 30"
proof -
  have a: "rel_err binary64 (1 / 1000)" by (rule binary64_rel_err)
  have b: "exact_on_ints binary64 50"
    by (rule exact_on_ints_mono[OF binary64_exact_on_ints]) simp
  have c: "\<forall>i\<le>25. 0 < exp (1 / 2 * real i) \<and>
             \<bar>ln (exp (1 / 2 * real i)) - real i / 2\<bar> \<le> 1 / 1000"
    by simp
  have d: "arrays1 ds_scenario ''t'' = Some scenario_time" by (simp add: ds_scenario_def)
  have e: "arrays1 ds_scenario ''phi2'' =
             Some (map (\<lambda>i. Fin (exp (1 / 2 * real (min i 25)))) [0..<50])"
    by (simp add: ds_scenario_def scenario_field_def)
  show ?thesis
    by (rule scenario_saturation_time_rounded[OF a b c d e])
qed

text \<open>
  Claim C10. The time array has at least two samples, and the window is a binary64 number
  that is strictly positive and smaller than the first sampling interval
  \<^verbatim>\<open>t[1] - t[0]\<close> as the detector computes it. In binary64 the quotient of two numbers
  \<open>0 < w < d\<close> never rounds up to one, so \<^verbatim>\<open>int(window / (t[1] - t[0]))\<close> is zero, the
  slice \<^verbatim>\<open>[:-0]\<close> is empty, and the detector raises the \<^verbatim>\<open>ValueError\<close> of a shape mismatch
  in the finite difference. Nothing is assumed of the field or of the later samples.
\<close>

theorem window_below_first_interval_raises:
  assumes "arrays1 ds ''t'' = Some t" and "arrays1 ds ''phi2'' = Some phi2"
    and "2 \<le> length t" and "is_float64 window"
    and "fl_lt (Fin 0) window" and "fl_lt window (fl_sub binary64 (t ! 1) (t ! 0))"
  shows "window_index binary64 t window = Inr 0 \<and>
         detect_saturation_time binary64 ds window threshold =
           Inl (ValueError ''operands could not be broadcast together'')"
proof -
  obtain w where w: "window = Fin w" "0 < w" "binary64 w = w"
    using assms(4,5,6) by (cases window; cases "fl_sub binary64 (t ! 1) (t ! 0)") auto
  have q: "fl_le (Fin 0) (fl_div binary64 window (fl_sub binary64 (t ! 1) (t ! 0))) \<and>
           fl_lt (fl_div binary64 window (fl_sub binary64 (t ! 1) (t ! 0))) (Fin 1)"
  proof (cases "fl_sub binary64 (t ! 1) (t ! 0)")
    case (Fin d)
    then obtain a b where ab: "d = binary64 (b + - a)"
      by (cases "t ! 1"; cases "t ! 0") (auto simp: fl_sub_def)
    have lt: "w < binary64 (b + - a)" using assms(6) w(1) Fin ab by simp
    note quot = binary64_quotient_below_one[OF w(2,3) lt]
    have "binary64 (b + - a) \<noteq> 0" using lt w(2) by simp
    then show ?thesis using quot w(1) Fin ab by simp
  next
    case PInf
    then show ?thesis using w(1) by simp
  next
    case NInf
    then show ?thesis using assms(6) w(1) by simp
  next
    case NaN
    then show ?thesis using assms(6) w(1) by simp
  qed
  show ?thesis
    by (rule zero_window_index_raises[OF assms(1,2,3) conjunct1[OF q] conjunct2[OF q]])
qed

theorem window_below_first_interval_raises_witness:
  "window_index binary64 w1_t (Fin (1 / 2)) = Inr 0 \<and>
   detect_saturation_time binary64 ds_w1 (Fin (1 / 2)) (Fin (1 / 10)) =
     Inl (ValueError ''operands could not be broadcast together'')"
proof -
  have a: "arrays1 ds_w1 ''t'' = Some w1_t" and b: "arrays1 ds_w1 ''phi2'' = Some w1_phi2"
    by (simp_all add: ds_w1_def)
  have c: "2 \<le> length w1_t" by (simp add: w1_t_def)
  have d: "is_float64 (Fin (1 / 2))" by (simp add: binary64_half)
  have e: "fl_lt (Fin 0) (Fin (1 / 2))" by simp
  have s: "fl_sub binary64 (w1_t ! 1) (w1_t ! 0) = Fin 1"
    by (simp add: w1_t_def fl_sub_def binary64_one)
  have f: "fl_lt (Fin (1 / 2)) (fl_sub binary64 (w1_t ! 1) (w1_t ! 0))"
    unfolding s by simp
  show ?thesis
    by (rule window_below_first_interval_raises[OF a b c d e f])
qed

section \<open>The claims about the renderers\<close>

text \<open>
  Claim C8. On a dataset that holds the time coordinate and none of \<open>phi2\<close>, \<open>apar2\<close>,
  \<open>bpar2\<close>, the list of enabled fields is empty, and \<open>plot_fields_time_traces\<close> raises
  \<^verbatim>\<open>KeyError\<close>: the saturation detector reads \<open>phi2\<close> whether it is there or not. No
  figure is saved and no path is returned.
\<close>

theorem time_traces_without_fields_raises:
  "filter (ds_contains ds_no_fields) [''phi2'', ''apar2'', ''bpar2''] = [] \<and>
   plot_fields_time_traces exact ds_no_fields ''outputs'' None (Fin 20) (Fin (1 / 10)) Map.empty =
     Inl (KeyError ''phi2'')"
  by (simp add: plot_fields_time_traces_def ds_no_fields_def ds_contains_def
      detect_saturation_time_def ds_values1_def)

text \<open>
  Claim C9. The docstring of \<open>plot_transfer_by_theta_averaged\<close> says that with
  \<open>tstart = None\<close> the function uses the last \<open>window\<close> time units, that is the samples
  in \<open>[t[-1] - window, t[-1]]\<close>. The code computes the end of the interval as
  \<open>(t[-1] - window) + window\<close>, which binary64 rounding can place below \<open>t[-1]\<close>. With
  samples at 400 and 420.2 and a window of 67.4 the start rounds to
  \<open>352.79999999999995\<close> and the end to \<open>420.19999999999993\<close>: the last sample lies in
  \<open>[t[-1] - window, t[-1]]\<close> and is left out of the average (only the first row is
  averaged), while the title, which prints the bounds to one decimal, still reads
  \<open>[352.8, 420.2]\<close>.
\<close>

theorem rounded_interval_drops_last_sample:
  "plot_transfer_by_theta_averaged binary64 ds_round (Fin (2371426678787277 / 2 ^ 45)) None ''outputs'' None
     Map.empty =
     Inr (PathJoin ''outputs'' ''transfer_by_theta_averaged.png'',
          [PathJoin ''outputs'' ''transfer_by_theta_averaged.png'' \<mapsto>
             \<lparr>artists = [Plot [Fin 0] (MeanOverT [[Fin 1]]) ''$T_v^text{ZF}$''],
              title_interval = Some (Fin (1551630809117491 / 2 ^ 42),
                                     Fin (7392236575863602 / 2 ^ 44))\<rparr>]) \<and>
   fl_le (fl_sub binary64 (Fin t_4202) (Fin (2371426678787277 / 2 ^ 45))) (Fin t_4202) \<and>
   fl_le (Fin t_4202) (Fin t_4202)"
proof -
  have lo: "fl_sub binary64 (Fin t_4202) (Fin (2371426678787277 / 2 ^ 45)) = Fin (1551630809117491 / 2 ^ 42)"
    using b64_tstart by (simp add: fl_sub_def t_4202_def)
  have hi: "fl_add binary64 (Fin (1551630809117491 / 2 ^ 42)) (Fin (2371426678787277 / 2 ^ 45)) =
              Fin (7392236575863602 / 2 ^ 44)"
    using b64_tend by simp
  have w: "averaging_window binary64 ds_round (Fin (2371426678787277 / 2 ^ 45)) None =
             Inr (Fin (1551630809117491 / 2 ^ 42), Fin (7392236575863602 / 2 ^ 44))"
    using lo hi by (simp add: averaging_window_def ds_round_def ds_values1_def py_last_def)
  have sel: "sel_t_slice [Fin 400, Fin t_4202] [[Fin 1], [Fin 2 :: fl]]
               (Fin (1551630809117491 / 2 ^ 42)) (Fin (7392236575863602 / 2 ^ 44)) =
             [[Fin 1]]"
    by (simp add: sel_t_slice_def t_4202_def)
  have en: "filter (ds_contains ds_round) all_diags = [''kinetic_energy_transfer_theta'']"
    by (simp add: ds_contains_def ds_round_def all_diags_def)
  have ln: "averaged_lines ds_round [Fin 0] (Fin (1551630809117491 / 2 ^ 42))
              (Fin (7392236575863602 / 2 ^ 44)) [''kinetic_energy_transfer_theta''] =
            Inr [Plot [Fin 0] (MeanOverT [[Fin 1]]) ''$T_v^text{ZF}$'']"
    using sel by (simp add: ds_round_def ds_values2_def ds_values1_def get_label_def labels_def)
  have th: "ds_values1 ds_round ''theta'' = Inr [Fin 0]"
    by (simp add: ds_round_def ds_values1_def)
  have "plot_transfer_by_theta_averaged binary64 ds_round (Fin (2371426678787277 / 2 ^ 45)) None ''outputs'' None
     Map.empty =
     Inr (PathJoin ''outputs'' ''transfer_by_theta_averaged.png'',
          [PathJoin ''outputs'' ''transfer_by_theta_averaged.png'' \<mapsto>
             \<lparr>artists = [Plot [Fin 0] (MeanOverT [[Fin 1]]) ''$T_v^text{ZF}$''],
              title_interval = Some (Fin (1551630809117491 / 2 ^ 42),
                                     Fin (7392236575863602 / 2 ^ 44))\<rparr>])"
    by (rule plot_transfer_by_theta_averaged_run[OF w th ln[folded en]])
  moreover have "fl_le (fl_sub binary64 (Fin t_4202) (Fin (2371426678787277 / 2 ^ 45))) (Fin t_4202)"
    unfolding lo by (simp add: t_4202_def)
  ultimately show ?thesis by simp
qed

end
